theory Spec2Isabelle
  imports Main
begin

section \<open>String primitives of the host language\<close>

text \<open>
  The program is TypeScript; its strings are modelled as \<^typ>\<open>string\<close>, a character
  being a code unit below 256 (ASCII and the Latin-1 supplement). The built-in string
  methods that the matching and ingestion code calls are given here as executable
  functions: \<open>toLowerCase\<close> (the letters A to Z and the capital letters of the Latin-1
  supplement, code units 192 to 222 without the multiplication sign 215, go to their
  small letters 32 places up, every other character stays), \<open>trim\<close> (tab,
  line feed, vertical tab, form feed, carriage return, space and the no-break space are
  removed at both ends), \<open>includes\<close> (named \<open>includesStr\<close> here), \<open>endsWith\<close>,
  \<open>split\<close> on a one-character separator, and the removal of every double quote, which
  is what \<open>replace\<close> with a global pattern does.
\<close>

definition isUpperCase :: "char \<Rightarrow> bool" where
  "isUpperCase c =
     (let n = (of_char c :: nat)
      in (65 \<le> n \<and> n \<le> 90) \<or> (192 \<le> n \<and> n \<le> 222 \<and> n \<noteq> 215))"

definition toLowerCase_char :: "char \<Rightarrow> char" where
  "toLowerCase_char c = (if isUpperCase c then char_of ((of_char c :: nat) + 32) else c)"

definition toLowerCase :: "string \<Rightarrow> string" where
  "toLowerCase s = map toLowerCase_char s"

definition isWhiteSpace :: "char \<Rightarrow> bool" where
  "isWhiteSpace c =
     (c \<in> set [CHR 0x09, CHR 0x0A, CHR 0x0B, CHR 0x0C, CHR 0x0D, CHR '' '', CHR 0xA0])"

definition trim :: "string \<Rightarrow> string" where
  "trim s = rev (dropWhile isWhiteSpace (rev (dropWhile isWhiteSpace s)))"

fun startsWith :: "string \<Rightarrow> string \<Rightarrow> bool" where
  "startsWith s [] = True"
| "startsWith [] (c # t) = False"
| "startsWith (a # s) (c # t) = (a = c \<and> startsWith s t)"

fun includesStr :: "string \<Rightarrow> string \<Rightarrow> bool" where
  "includesStr [] t = (t = [])"
| "includesStr (a # s) t = (startsWith (a # s) t \<or> includesStr s t)"

definition endsWith :: "string \<Rightarrow> string \<Rightarrow> bool" where
  "endsWith s t = startsWith (rev s) (rev t)"

fun split :: "char \<Rightarrow> string \<Rightarrow> string list" where
  "split c [] = [[]]"
| "split c (x # xs) =
     (if x = c then [] # split c xs
      else (case split c xs of
              [] \<Rightarrow> [[x]]
            | w # ws \<Rightarrow> (x # w) # ws))"

definition removeQuotes :: "string \<Rightarrow> string" where
  "removeQuotes s = filter (\<lambda>c. c \<noteq> CHR 0x22) s"

text \<open>
  Truthiness of a string value: the empty string and \<open>undefined\<close> are falsy, every other
  string is truthy. \<open>js_or a b\<close> is \<open>a || b\<close> for a possibly undefined string \<open>a\<close>.
\<close>

definition truthy :: "string \<Rightarrow> bool" where
  "truthy s = (s \<noteq> [])"

definition js_or :: "string option \<Rightarrow> string \<Rightarrow> string" where
  "js_or a b = (case a of None \<Rightarrow> b | Some v \<Rightarrow> if truthy v then v else b)"

text \<open>Decimal rendering of a non-negative integer (\<open>toString\<close>, and the digits of \<open>toFixed\<close>).\<close>

fun natToString :: "nat \<Rightarrow> string" where
  "natToString n =
     (if n < 10 then [''0123456789'' ! n]
      else natToString (n div 10) @ [''0123456789'' ! (n mod 10)])"

declare natToString.simps [simp del]

section \<open>Data model of the dashboard\<close>

text \<open>
  The interfaces of the dashboard component. Field names are the source's; where two
  interfaces share a field name the later one carries a prefix (\<open>res_\<close> for
  \<open>InteractionResult\<close>, \<open>alert_\<close> for \<open>AllergyAlert\<close>, \<open>info_\<close> for the entries of the
  allergen table), and \<open>id\<close> of \<open>DrugEntry\<close> is \<open>drug_id\<close>. Severities are strings, as in
  the running program: the CSV path stores whatever the file holds. The optional fields
  \<open>mechanism\<close> and \<open>evidence_level\<close> of an interaction record are options; the two further
  optional fields that the dashboard declares for it are never read or written.
\<close>

record DrugEntry =
  drug_id :: string
  name :: string
  dosage :: string
  frequency :: string

record DrugInteractionData =
  drug1 :: string
  drug2 :: string
  severity :: string
  description :: string
  recommendation :: string
  mechanism :: "string option"
  evidence_level :: "string option"

record InteractionResult =
  res_severity :: string
  drugs :: "string list"
  res_description :: string
  res_recommendation :: string

record AllergyAlert =
  drug :: string
  allergen :: string
  alert_severity :: string
  symptoms :: string
  alert_recommendation :: string

record AllergenInfo =
  allergens :: "string list"
  info_symptoms :: string
  info_severity :: string

definition mockInteractions :: "InteractionResult list" where
  "mockInteractions =
     [\<lparr>res_severity = ''severe'',
       drugs = [''Warfarin'', ''Aspirin''],
       res_description = ''Increased risk of bleeding when used together'',
       res_recommendation = ''Consider alternative antiplatelet therapy or adjust warfarin dosing with frequent monitoring''\<rparr>,
      \<lparr>res_severity = ''moderate'',
       drugs = [''Metformin'', ''Contrast Agent''],
       res_description = ''Risk of lactic acidosis with contrast procedures'',
       res_recommendation = ''Discontinue metformin 48 hours before and after contrast administration''\<rparr>]"

section \<open>Allergy matching\<close>

text \<open>
  \<open>commonAllergicReactions\<close> is the object literal of \<open>checkAllergies\<close>, as the list of its
  entries in insertion order (the order \<open>Object.entries\<close> walks them).
\<close>

definition commonAllergicReactions :: "(string \<times> AllergenInfo) list" where
  "commonAllergicReactions =
     [(''penicillin'',
       \<lparr>allergens = [''penicillin'', ''amoxicillin'', ''ampicillin''],
        info_symptoms = ''Rash, hives, swelling, difficulty breathing'',
        info_severity = ''severe''\<rparr>),
      (''sulfa'',
       \<lparr>allergens = [''sulfamethoxazole'', ''trimethoprim'', ''sulfasalazine''],
        info_symptoms = ''Skin rash, fever, nausea'',
        info_severity = ''moderate''\<rparr>),
      (''aspirin'',
       \<lparr>allergens = [''aspirin'', ''acetylsalicylic acid''],
        info_symptoms = ''Breathing problems, hives, stomach upset'',
        info_severity = ''moderate''\<rparr>),
      (''iodine'',
       \<lparr>allergens = [''iodine'', ''contrast dye''],
        info_symptoms = ''Skin reactions, breathing difficulties'',
        info_severity = ''severe''\<rparr>),
      (''latex'',
       \<lparr>allergens = [''latex''],
        info_symptoms = ''Skin irritation, respiratory symptoms'',
        info_severity = ''mild''\<rparr>)]"

text \<open>The alert pushed by the direct match, and the one pushed for a class of the table.\<close>

definition directAlert :: "DrugEntry \<Rightarrow> string \<Rightarrow> AllergyAlert" where
  "directAlert d allergy =
     \<lparr>drug = name d,
      allergen = allergy,
      alert_severity = ''severe'',
      symptoms = ''Allergic reaction possible'',
      alert_recommendation = ''AVOID '' @ name d @ '' - Patient is allergic to '' @ allergy\<rparr>"

definition classAlert :: "DrugEntry \<Rightarrow> string \<Rightarrow> string \<Rightarrow> AllergenInfo \<Rightarrow> AllergyAlert" where
  "classAlert d allergy key info =
     \<lparr>drug = name d,
      allergen = allergy,
      alert_severity = info_severity info,
      symptoms = info_symptoms info,
      alert_recommendation =
        ''CONTRAINDICATED - '' @ name d @ '' contains '' @ key @ '' which patient is allergic to''\<rparr>"

text \<open>
  The body of the inner \<open>forEach\<close> callback: the alerts pushed for one drug and one
  allergy, appended to the shared array \<open>alerts\<close>. The allergy term is lowercased and
  trimmed; the drug name is lowercased only.
\<close>

definition checkPair :: "DrugEntry \<Rightarrow> string \<Rightarrow> AllergyAlert list \<Rightarrow> AllergyAlert list" where
  "checkPair d allergy alerts =
     (let allergyLower = trim (toLowerCase allergy);
          drugLower = toLowerCase (name d);
          alerts1 = (if includesStr drugLower allergyLower \<or> includesStr allergyLower drugLower
                     then alerts @ [directAlert d allergy] else alerts)
      in fold (\<lambda>(key, info) acc.
                 if includesStr allergyLower key \<and> list_ex (\<lambda>a. includesStr drugLower a) (allergens info)
                 then acc @ [classAlert d allergy key info] else acc)
              commonAllergicReactions alerts1)"

definition checkAllergies :: "DrugEntry list \<Rightarrow> string list \<Rightarrow> AllergyAlert list" where
  "checkAllergies ds allergies =
     fold (\<lambda>d alerts. fold (\<lambda>allergy acc. checkPair d allergy acc) allergies alerts) ds []"

section \<open>Interaction matching\<close>

text \<open>
  The predicate handed to \<open>find\<close>, with its four disjuncts in source order; \<open>d1\<close> and
  \<open>d2\<close> are the two lowercased drug names.
\<close>

definition matchesItem :: "string \<Rightarrow> string \<Rightarrow> DrugInteractionData \<Rightarrow> bool" where
  "matchesItem d1 d2 item =
     ((includesStr (toLowerCase (drug1 item)) d1 \<and> includesStr (toLowerCase (drug2 item)) d2) \<or>
      (includesStr (toLowerCase (drug1 item)) d2 \<and> includesStr (toLowerCase (drug2 item)) d1) \<or>
      (toLowerCase (drug1 item) = d1 \<and> toLowerCase (drug2 item) = d2) \<or>
      (toLowerCase (drug1 item) = d2 \<and> toLowerCase (drug2 item) = d1))"

definition pairResult :: "DrugInteractionData list \<Rightarrow> DrugEntry \<Rightarrow> DrugEntry \<Rightarrow> InteractionResult option" where
  "pairResult activeDataset di dj =
     (case List.find (matchesItem (toLowerCase (name di)) (toLowerCase (name dj))) activeDataset of
        None \<Rightarrow> None
      | Some interaction \<Rightarrow>
          Some \<lparr>res_severity = severity interaction,
                drugs = [name di, name dj],
                res_description = description interaction,
                res_recommendation = recommendation interaction\<rparr>)"

text \<open>The two nested index loops over the uploaded dataset, pushing to \<open>foundInteractions\<close>.\<close>

definition datasetInteractions :: "DrugEntry list \<Rightarrow> DrugInteractionData list \<Rightarrow> InteractionResult list" where
  "datasetInteractions ds activeDataset =
     fold (\<lambda>i found.
             fold (\<lambda>j acc. case pairResult activeDataset (ds ! i) (ds ! j) of
                              None \<Rightarrow> acc
                            | Some r \<Rightarrow> acc @ [r])
                  [Suc i ..< length ds] found)
          [0 ..< length ds] []"

text \<open>
  The state of the dashboard component that the analysis reads and writes, and the
  callback of \<open>analyzeInteractions\<close> that runs when the timer fires: it reads the entries,
  the allergy text and the active dataset, and stores the two result lists. The active
  dataset is \<open>None\<close> for \<open>null\<close>.
\<close>

record Dashboard =
  drugEntries :: "DrugEntry list"
  patientAllergies :: string
  activeDataset :: "DrugInteractionData list option"
  analyzing :: bool
  results :: "InteractionResult list"
  allergyAlerts :: "AllergyAlert list"

definition analyzeInteractions :: "Dashboard \<Rightarrow> Dashboard" where
  "analyzeInteractions s =
     (let foundAllergies =
            (if truthy (trim (patientAllergies s))
             then checkAllergies (drugEntries s)
                    (filter truthy (map trim (split CHR '','' (patientAllergies s))))
             else []);
          foundInteractions =
            (case activeDataset s of
               None \<Rightarrow> mockInteractions
             | Some table \<Rightarrow>
                 if length table > 0 then datasetInteractions (drugEntries s) table
                 else mockInteractions)
      in s\<lparr>results := foundInteractions, allergyAlerts := foundAllergies, analyzing := False\<rparr>)"

text \<open>
  \<open>addDrug\<close> appends the entry typed into the form when its name is not blank; the name
  is stored as typed, untrimmed, and the identifier is the clock's reading. The form
  fields and the clock are arguments here, the list of entries is the state.
\<close>

definition addDrug :: "nat \<Rightarrow> string \<Rightarrow> string \<Rightarrow> string \<Rightarrow> DrugEntry list \<Rightarrow> DrugEntry list" where
  "addDrug now_ms n dos freq ds =
     (if truthy (trim n)
      then ds @ [\<lparr>drug_id = natToString now_ms, name = n, dosage = dos, frequency = freq\<rparr>]
      else ds)"

section \<open>Dataset ingestion\<close>

text \<open>
  The interfaces of the dataset manager (\<open>id\<close> and \<open>name\<close> of \<open>Dataset\<close> are
  \<open>dataset_id\<close> and \<open>dataset_name\<close>), the uploaded file as the handler reads it
  (\<open>file.name\<close>, \<open>await file.text()\<close>, \<open>file.size\<close>), the clock it consults and the
  toast it shows.
\<close>

record Dataset =
  dataset_id :: string
  dataset_name :: string
  uploadDate :: string
  rowCount :: nat
  fileSize :: string
  status :: string
  data :: "DrugInteractionData list"

record File =
  file_name :: string
  file_text :: string
  file_size :: nat

record Clock =
  now :: nat
  isoString :: string

record Toast =
  title :: string
  toast_description :: string
  variant :: "string option"

record Manager =
  datasets :: "Dataset list"
  activeDatasetId :: "string option"
  uploading :: bool
  previewData :: "DrugInteractionData list option"

text \<open>
  \<open>(file.size / 1024).toFixed(1)\<close>: the quotient is exact in binary floating point, and
  \<open>toFixed(1)\<close> rounds it to the nearest tenth, the larger one on a tie.
\<close>

definition sizeInKB :: "nat \<Rightarrow> string" where
  "sizeInKB n =
     (let tenths = (n * 10 + 512) div 1024
      in natToString (tenths div 10) @ ''.'' @ natToString (tenths mod 10))"

text \<open>
  \<open>file.name.replace(/\.[^/.]+$/, "")\<close>: the last dot and what follows it are removed
  when at least one character follows and none of them is a slash.
\<close>

definition stripExtension :: "string \<Rightarrow> string" where
  "stripExtension s =
     (let ext = takeWhile (\<lambda>c. c \<noteq> CHR ''.'') (rev s)
      in if length ext < length s \<and> ext \<noteq> [] \<and> CHR ''/'' \<notin> set ext
         then take (length s - length ext - 1) s
         else s)"

subsection \<open>The CSV parser\<close>

text \<open>
  One data line: the values are the comma-separated pieces, each trimmed and then freed of
  every double quote; \<open>obj\<close> maps each header to the value at its index (or to the empty
  string); the record is read from \<open>obj\<close> through the chains of alternatives.
\<close>

definition lineValues :: "string \<Rightarrow> string list" where
  "lineValues line = map (\<lambda>v. removeQuotes (trim v)) (split CHR '','' line)"

definition lineObject :: "string list \<Rightarrow> string list \<Rightarrow> (string \<rightharpoonup> string)" where
  "lineObject headers values =
     fold (\<lambda>(header, index) obj.
             obj(header \<mapsto> js_or (if index < length values then Some (values ! index) else None) []))
          (zip headers [0 ..< length headers]) Map.empty"

definition parseLine :: "string list \<Rightarrow> string \<Rightarrow> DrugInteractionData" where
  "parseLine headers line =
     (let obj = lineObject headers (lineValues line)
      in \<lparr>drug1 = js_or (obj ''drug1'') (js_or (obj ''drug 1'') (js_or (obj ''drugname1'') [])),
          drug2 = js_or (obj ''drug2'') (js_or (obj ''drug 2'') (js_or (obj ''drugname2'') [])),
          severity = toLowerCase (js_or (obj ''severity'') ''mild''),
          description = js_or (obj ''description'') (js_or (obj ''interaction'') []),
          recommendation = js_or (obj ''recommendation'') (js_or (obj ''advice'') []),
          mechanism = Some (js_or (obj ''mechanism'') []),
          evidence_level =
            Some (js_or (obj ''evidence_level'') (js_or (obj ''evidence level'') []))\<rparr>)"

definition parseCSV :: "string \<Rightarrow> DrugInteractionData list" where
  "parseCSV text =
     (case split CHR 0x0A text of
        [] \<Rightarrow> []
      | header # rest \<Rightarrow>
          (let headers = map (\<lambda>h. toLowerCase (trim h)) (split CHR '','' header)
           in map (parseLine headers) (filter (\<lambda>line. truthy (trim line)) rest)))"

subsection \<open>The upload handler\<close>

text \<open>
  The handler takes the parser of the JSON path as the parameter \<open>json_parse\<close>, which
  returns the records of the declared type \<open>DrugInteractionData[]\<close>, or \<open>Inl\<close> of the
  message of the error thrown; \<open>jsonParse\<close> below is the platform's.
\<close>

definition parseFile ::
  "(string \<Rightarrow> string + DrugInteractionData list) \<Rightarrow> File \<Rightarrow> string + DrugInteractionData list" where
  "parseFile json_parse file =
     (if endsWith (file_name file) ''.json'' then json_parse (file_text file)
      else if endsWith (file_name file) ''.csv'' then Inr (parseCSV (file_text file))
      else Inr [])"

definition isValid :: "DrugInteractionData \<Rightarrow> bool" where
  "isValid item =
     (truthy (drug1 item) \<and> truthy (drug2 item) \<and> truthy (severity item) \<and> truthy (description item))"

definition uploadFailed :: "string \<Rightarrow> Toast" where
  "uploadFailed msg =
     \<lparr>title = ''Upload failed'', toast_description = msg, variant = Some ''destructive''\<rparr>"

definition newDataset :: "Clock \<Rightarrow> File \<Rightarrow> DrugInteractionData list \<Rightarrow> Dataset" where
  "newDataset clock file validData =
     \<lparr>dataset_id = natToString (now clock),
      dataset_name = stripExtension (file_name file),
      uploadDate = hd (split CHR ''T'' (isoString clock)),
      rowCount = length validData,
      fileSize = sizeInKB (file_size file) @ '' KB'',
      status = ''active'',
      data = validData\<rparr>"

definition handleFileUpload ::
  "(string \<Rightarrow> string + DrugInteractionData list) \<Rightarrow> Clock \<Rightarrow> File option \<Rightarrow> Manager
     \<Rightarrow> Manager \<times> Toast option" where
  "handleFileUpload json_parse clock fileOpt s =
     (case fileOpt of
        None \<Rightarrow> (s, None)
      | Some file \<Rightarrow>
          (case parseFile json_parse file of
             Inl msg \<Rightarrow> (s\<lparr>uploading := False\<rparr>, Some (uploadFailed msg))
           | Inr parsedData \<Rightarrow>
               (let validData = filter isValid parsedData
                in if length validData = 0
                   then (s\<lparr>uploading := False\<rparr>,
                         Some (uploadFailed ''No valid drug interaction data found in file''))
                   else (s\<lparr>datasets := datasets s @ [newDataset clock file validData],
                           uploading := False\<rparr>,
                         Some \<lparr>title = ''Dataset uploaded successfully'',
                               toast_description =
                                 natToString (length validData) @ '' drug interactions loaded from ''
                                   @ file_name file,
                               variant = None\<rparr>))))"


subsection \<open>The platform's JSON functions\<close>

text \<open>
  \<open>JSON.stringify\<close> and \<open>JSON.parse\<close> belong to the platform, not to the repository;
  they are modelled here after the language standard, for texts over the characters of
  the model. A JSON value:
\<close>

datatype json =
  JNull | JBool bool | JNum string | JStr string | JArr "json list" | JObj "(string \<times> json) list"

text \<open>
  \<open>JSON.stringify(data, null, 2)\<close> on an array of interaction records. A string is
  quoted: the double quote and the backslash get a backslash, the control characters
  their short escape or \<open>\u00\<close> and two small hexadecimal digits, every other character
  is copied (\<open>hexDigit\<close> is only asked for a digit below 16). An object lists its
  properties in the order of the interface, one per line at four spaces: the five
  required ones, which the model has as strings, and the optional ones that are not
  \<open>undefined\<close>. The array lists its objects at two spaces.
\<close>

definition hexDigit :: "nat \<Rightarrow> char" where
  "hexDigit k = ''0123456789abcdef'' ! k"

definition quoteChar :: "char \<Rightarrow> string" where
  "quoteChar c =
     (if c = CHR 0x22 then [CHR 0x5C, CHR 0x22]
      else if c = CHR 0x5C then [CHR 0x5C, CHR 0x5C]
      else if c = CHR 0x08 then [CHR 0x5C, CHR ''b'']
      else if c = CHR 0x09 then [CHR 0x5C, CHR ''t'']
      else if c = CHR 0x0A then [CHR 0x5C, CHR ''n'']
      else if c = CHR 0x0C then [CHR 0x5C, CHR ''f'']
      else if c = CHR 0x0D then [CHR 0x5C, CHR ''r'']
      else if (of_char c :: nat) < 32
        then [CHR 0x5C, CHR ''u'', CHR ''0'', CHR ''0'',
              hexDigit (of_char c div 16), hexDigit (of_char c mod 16)]
      else [c])"

definition quoteJSONString :: "string \<Rightarrow> string" where
  "quoteJSONString s = [CHR 0x22] @ concat (map quoteChar s) @ [CHR 0x22]"


fun serializeProperties :: "(string \<times> string) list \<Rightarrow> string" where
  "serializeProperties [] = ''}''"
| "serializeProperties [(k, v)] =
     [CHR 0x0A] @ ''    '' @ quoteJSONString k @ '': '' @ quoteJSONString v @ [CHR 0x0A] @ ''  }''"
| "serializeProperties ((k, v) # p # ps) =
     [CHR 0x0A] @ ''    '' @ quoteJSONString k @ '': '' @ quoteJSONString v @ '','' @
     serializeProperties (p # ps)"



text \<open>
  \<open>JSON.parse\<close>: white space is space, tab, line feed and carriage return; a string
  ends at the first double quote that no backslash precedes, holds no raw control
  character, and an escape is one of the eight short ones or \<open>\u\<close> and four hexadecimal
  digits (a code unit of 256 or more is outside the characters of the model).
\<close>

definition isJsonWs :: "char \<Rightarrow> bool" where
  "isJsonWs c = (c \<in> set [CHR '' '', CHR 0x09, CHR 0x0A, CHR 0x0D])"

definition skipWs :: "string \<Rightarrow> string" where
  "skipWs s = dropWhile isJsonWs s"

definition hexValue :: "char \<Rightarrow> nat option" where
  "hexValue c =
     map_of (zip ''0123456789abcdefABCDEF''
                 [0, 1, 2, 3, 4, 5, 6, 7, 8, 9, 10, 11, 12, 13, 14, 15, 10, 11, 12, 13, 14, 15]) c"

definition simpleEscape :: "char \<Rightarrow> char option" where
  "simpleEscape e =
     map_of [(CHR 0x22, CHR 0x22), (CHR 0x5C, CHR 0x5C), (CHR ''/'', CHR ''/''),
             (CHR ''b'', CHR 0x08), (CHR ''f'', CHR 0x0C), (CHR ''n'', CHR 0x0A),
             (CHR ''r'', CHR 0x0D), (CHR ''t'', CHR 0x09)] e"

definition unescape :: "string \<Rightarrow> (char \<times> string) option" where
  "unescape s =
     (case s of
        [] \<Rightarrow> None
      | e # r \<Rightarrow>
          if e = CHR ''u'' then
            (case r of
               a # b # c # d # r' \<Rightarrow>
                 (case (hexValue a, hexValue b, hexValue c, hexValue d) of
                    (Some x, Some y, Some z, Some w) \<Rightarrow>
                      if ((x * 16 + y) * 16 + z) * 16 + w < 256
                      then Some (char_of (((x * 16 + y) * 16 + z) * 16 + w), r')
                      else None
                  | _ \<Rightarrow> None)
             | _ \<Rightarrow> None)
          else (case simpleEscape e of None \<Rightarrow> None | Some ch \<Rightarrow> Some (ch, r)))"

function parseStringBody :: "string \<Rightarrow> (string \<times> string) option" where
  "parseStringBody [] = None"
| "parseStringBody (c # cs) =
     (if c = CHR 0x22 then Some ([], cs)
      else if c = CHR 0x5C then
        (case unescape cs of
           None \<Rightarrow> None
         | Some (ch, r) \<Rightarrow>
             (case parseStringBody r of None \<Rightarrow> None | Some (t, r') \<Rightarrow> Some (ch # t, r')))
      else if (of_char c :: nat) < 32 then None
      else (case parseStringBody cs of None \<Rightarrow> None | Some (t, r') \<Rightarrow> Some (c # t, r')))"
  by pat_completeness auto
termination
  by (relation "measure length")
     (auto simp: unescape_def split: list.splits if_splits option.splits)

text \<open>
  A number: an optional minus, the digits of the integer (no leading zero before another
  digit), an optional fraction and an optional exponent; it is kept as written.
\<close>

definition isDigit :: "char \<Rightarrow> bool" where
  "isDigit c = (c \<in> set ''0123456789'')"

definition integerPart :: "string \<Rightarrow> string option" where
  "integerPart s =
     (let sign = (if startsWith s ''-'' then ''-'' else []);
          ds = takeWhile isDigit (drop (length sign) s)
      in if ds = [] \<or> (1 < length ds \<and> hd ds = CHR ''0'') then None else Some (sign @ ds))"

definition fractionPart :: "string \<Rightarrow> string option" where
  "fractionPart s =
     (if startsWith s ''.''
      then (if takeWhile isDigit (drop 1 s) = [] then None
            else Some (CHR ''.'' # takeWhile isDigit (drop 1 s)))
      else Some [])"

definition exponentPart :: "string \<Rightarrow> string option" where
  "exponentPart s =
     (if startsWith s ''e'' \<or> startsWith s ''E''
      then (let sign = (if startsWith (drop 1 s) ''+'' \<or> startsWith (drop 1 s) ''-''
                        then take 1 (drop 1 s) else []);
                ds = takeWhile isDigit (drop (1 + length sign) s)
            in if ds = [] then None else Some (take 1 s @ sign @ ds))
      else Some [])"

definition parseNumber :: "string \<Rightarrow> (string \<times> string) option" where
  "parseNumber s =
     (case integerPart s of
        None \<Rightarrow> None
      | Some a \<Rightarrow>
          (case fractionPart (drop (length a) s) of
             None \<Rightarrow> None
           | Some b \<Rightarrow>
               (case exponentPart (drop (length a + length b) s) of
                  None \<Rightarrow> None
                | Some c \<Rightarrow> Some (a @ b @ c, drop (length a + length b + length c) s))))"

text \<open>
  The values, by recursive descent. The first argument bounds the number of nested calls;
  \<open>parseJSON\<close> starts with twice the length of the text and one more, and every call
  on a remaining text \<open>s\<close> is made with at least \<open>2 * length s\<close>, so the bound is never
  what ends a parse. The whole text must be one value between white space.
\<close>

fun parseValue :: "nat \<Rightarrow> string \<Rightarrow> (json \<times> string) option"
  and parseElements :: "nat \<Rightarrow> string \<Rightarrow> (json list \<times> string) option"
  and parseMembers :: "nat \<Rightarrow> string \<Rightarrow> ((string \<times> json) list \<times> string) option" where
  "parseValue 0 s = None"
| "parseValue (Suc n) s =
     (case skipWs s of
        [] \<Rightarrow> None
      | c # r \<Rightarrow>
          if c = CHR ''{'' then
            (if startsWith (skipWs r) ''}'' then Some (JObj [], drop 1 (skipWs r))
             else (case parseMembers n r of None \<Rightarrow> None | Some (ms, r') \<Rightarrow> Some (JObj ms, r')))
          else if c = CHR ''['' then
            (if startsWith (skipWs r) '']'' then Some (JArr [], drop 1 (skipWs r))
             else (case parseElements n r of None \<Rightarrow> None | Some (vs, r') \<Rightarrow> Some (JArr vs, r')))
          else if c = CHR 0x22 then
            (case parseStringBody r of None \<Rightarrow> None | Some (t, r') \<Rightarrow> Some (JStr t, r'))
          else if startsWith (c # r) ''true'' then Some (JBool True, drop 4 (c # r))
          else if startsWith (c # r) ''false'' then Some (JBool False, drop 5 (c # r))
          else if startsWith (c # r) ''null'' then Some (JNull, drop 4 (c # r))
          else (case parseNumber (c # r) of None \<Rightarrow> None | Some (t, r') \<Rightarrow> Some (JNum t, r')))"
| "parseElements 0 s = None"
| "parseElements (Suc n) s =
     (case parseValue n s of
        None \<Rightarrow> None
      | Some (v, r) \<Rightarrow>
          (case skipWs r of
             [] \<Rightarrow> None
           | c # r' \<Rightarrow>
               if c = CHR '','' then
                 (case parseElements n r' of None \<Rightarrow> None | Some (vs, r'') \<Rightarrow> Some (v # vs, r''))
               else if c = CHR '']'' then Some ([v], r')
               else None))"
| "parseMembers 0 s = None"
| "parseMembers (Suc n) s =
     (case skipWs s of
        [] \<Rightarrow> None
      | q # r \<Rightarrow>
          if q \<noteq> CHR 0x22 then None
          else
            (case parseStringBody r of
               None \<Rightarrow> None
             | Some (k, r1) \<Rightarrow>
                 (case skipWs r1 of
                    [] \<Rightarrow> None
                  | c # r2 \<Rightarrow>
                      if c \<noteq> CHR '':'' then None
                      else
                        (case parseValue n r2 of
                           None \<Rightarrow> None
                         | Some (v, r3) \<Rightarrow>
                             (case skipWs r3 of
                                [] \<Rightarrow> None
                              | c' # r4 \<Rightarrow>
                                  if c' = CHR '','' then
                                    (case parseMembers n r4 of
                                       None \<Rightarrow> None
                                     | Some (ms, r5) \<Rightarrow> Some ((k, v) # ms, r5))
                                  else if c' = CHR ''}'' then Some ([(k, v)], r4)
                                  else None)))))"

definition parseJSON :: "string \<Rightarrow> json option" where
  "parseJSON text =
     (case parseValue (Suc (2 * length text)) text of
        None \<Rightarrow> None
      | Some (v, r) \<Rightarrow> if skipWs r = [] then Some v else None)"

text \<open>
  The parsed value as the \<open>DrugInteractionData[]\<close> that the handler declares it to be:
  an array of objects whose properties of the seven declared names, where present, are
  strings; the last of several properties of one name counts, an absent required
  property is \<open>undefined\<close> and reads as the empty string, other properties are dropped.
  A value that is no array makes \<open>parsedData.filter\<close> throw. An array that holds
  anything else is outside the declared type, which the model reports as an error too.
\<close>

definition stringProperty :: "(string \<times> json) list \<Rightarrow> string \<Rightarrow> string option option" where
  "stringProperty ms k =
     (case map_of (rev ms) k of
        None \<Rightarrow> Some None
      | Some (JStr t) \<Rightarrow> Some (Some t)
      | Some _ \<Rightarrow> None)"

definition orEmpty :: "string option \<Rightarrow> string" where
  "orEmpty a = (case a of None \<Rightarrow> [] | Some t \<Rightarrow> t)"

definition asRecord :: "json \<Rightarrow> DrugInteractionData option" where
  "asRecord v =
     (case v of
        JObj ms \<Rightarrow>
          (case (stringProperty ms ''drug1'', stringProperty ms ''drug2'',
                 stringProperty ms ''severity'', stringProperty ms ''description'',
                 stringProperty ms ''recommendation'', stringProperty ms ''mechanism'',
                 stringProperty ms ''evidence_level'') of
             (Some d1, Some d2, Some sv, Some ds, Some rc, Some m, Some e) \<Rightarrow>
               Some \<lparr>drug1 = orEmpty d1, drug2 = orEmpty d2, severity = orEmpty sv,
                     description = orEmpty ds, recommendation = orEmpty rc,
                     mechanism = m, evidence_level = e\<rparr>
           | _ \<Rightarrow> None)
      | _ \<Rightarrow> None)"

fun asRecords :: "json list \<Rightarrow> DrugInteractionData list option" where
  "asRecords [] = Some []"
| "asRecords (v # vs) =
     (case asRecord v of
        None \<Rightarrow> None
      | Some item \<Rightarrow> (case asRecords vs of None \<Rightarrow> None | Some items \<Rightarrow> Some (item # items)))"

definition jsonParse :: "string \<Rightarrow> string + DrugInteractionData list" where
  "jsonParse text =
     (case parseJSON text of
        None \<Rightarrow> Inl ''Unexpected token in JSON''
      | Some (JArr vs) \<Rightarrow>
          (case asRecords vs of
             None \<Rightarrow> Inl ''Not an array of DrugInteractionData''
           | Some items \<Rightarrow> Inr items)
      | Some _ \<Rightarrow> Inl ''parsedData.filter is not a function'')"



section \<open>Notions of the specification\<close>

text \<open>
  The rule as the specification words it: a record matches the lowercased names \<open>a\<close> and
  \<open>b\<close> when its first drug name contains \<open>a\<close> and its second contains \<open>b\<close>, or the other
  way round. A containment match compares after case normalisation, so the names of the
  record are lowercased too.
\<close>

definition containmentRule :: "DrugInteractionData \<Rightarrow> string \<Rightarrow> string \<Rightarrow> bool" where
  "containmentRule r a b =
     ((includesStr (toLowerCase (drug1 r)) a \<and> includesStr (toLowerCase (drug2 r)) b) \<or>
      (includesStr (toLowerCase (drug1 r)) b \<and> includesStr (toLowerCase (drug2 r)) a))"

text \<open>The finding built from a matched record and the two entries, in entry order.\<close>

definition finding :: "DrugInteractionData \<Rightarrow> DrugEntry \<Rightarrow> DrugEntry \<Rightarrow> InteractionResult" where
  "finding r di dj =
     \<lparr>res_severity = severity r, drugs = [name di, name dj],
      res_description = description r, res_recommendation = recommendation r\<rparr>"

text \<open>Exchanging the entries at two positions of the medication list.\<close>

definition swapIndex :: "nat \<Rightarrow> nat \<Rightarrow> nat \<Rightarrow> nat" where
  "swapIndex i j x = (if x = i then j else if x = j then i else x)"

definition swapEntries :: "nat \<Rightarrow> nat \<Rightarrow> 'a list \<Rightarrow> 'a list" where
  "swapEntries i j xs = xs[i := xs ! j, j := xs ! i]"

text \<open>
  The alerts that the walk over the allergen table pushes for one drug and one allergy
  term, as a list of their own.
\<close>

definition classAlerts :: "DrugEntry \<Rightarrow> string \<Rightarrow> AllergyAlert list" where
  "classAlerts d allergy =
     concat (map (\<lambda>(key, info).
                    if includesStr (trim (toLowerCase allergy)) key \<and>
                       list_ex (\<lambda>a. includesStr (toLowerCase (name d)) a) (allergens info)
                    then [classAlert d allergy key info] else [])
                 commonAllergicReactions)"

text \<open>
  The value of a column on a data line, in the words of the specification. The column of
  a name is the last header of that name. Its value is the piece of the line at the
  header's index, the line being split on commas, trimmed and then without any of its
  double quotes; it is the empty string when the line has no piece at that index, and
  undefined when no header has the name.
\<close>

definition lastIndex :: "string list \<Rightarrow> string \<Rightarrow> nat option" where
  "lastIndex hs h = List.find (\<lambda>k. hs ! k = h) (rev [0 ..< length hs])"

definition columnValue :: "string list \<Rightarrow> string \<Rightarrow> string \<Rightarrow> string option" where
  "columnValue hs line h =
     (case lastIndex hs h of
        None \<Rightarrow> None
      | Some k \<Rightarrow>
          Some (if k < length (split CHR '','' line)
                then removeQuotes (trim (split CHR '','' line ! k))
                else []))"

text \<open>
  The record of a data line: \<open>drug1\<close> from the column \<open>drug1\<close>, else \<open>drug 1\<close>, else
  \<open>drugname1\<close>, the first whose value is not empty, and so for the other fields;
  \<open>severity\<close> is lowercased and is \<open>mild\<close> without a value.
\<close>

definition csvRecord :: "string list \<Rightarrow> string \<Rightarrow> DrugInteractionData" where
  "csvRecord hs line =
     \<lparr>drug1 = js_or (columnValue hs line ''drug1'')
                (js_or (columnValue hs line ''drug 1'') (js_or (columnValue hs line ''drugname1'') [])),
      drug2 = js_or (columnValue hs line ''drug2'')
                (js_or (columnValue hs line ''drug 2'') (js_or (columnValue hs line ''drugname2'') [])),
      severity = toLowerCase (js_or (columnValue hs line ''severity'') ''mild''),
      description = js_or (columnValue hs line ''description'')
                      (js_or (columnValue hs line ''interaction'') []),
      recommendation = js_or (columnValue hs line ''recommendation'')
                         (js_or (columnValue hs line ''advice'') []),
      mechanism = Some (js_or (columnValue hs line ''mechanism'') []),
      evidence_level = Some (js_or (columnValue hs line ''evidence_level'')
                               (js_or (columnValue hs line ''evidence level'') []))\<rparr>"

text \<open>A string without a double quote; a record whose four required fields are non-empty.\<close>

definition noQuote :: "string \<Rightarrow> bool" where
  "noQuote s = (CHR 0x22 \<notin> set s)"

definition nonEmptyFields :: "DrugInteractionData \<Rightarrow> bool" where
  "nonEmptyFields item =
     (drug1 item \<noteq> [] \<and> drug2 item \<noteq> [] \<and> severity item \<noteq> [] \<and> description item \<noteq> [])"

section \<open>Example inputs\<close>

text \<open>
  Records, entries and a dashboard for the examples: the record of the specification's
  first scenario, a record that matches Aspirin with Warfarin by containment only, and a
  record that does not match them.
\<close>

definition aspirinWarfarin :: DrugInteractionData where
  "aspirinWarfarin =
     \<lparr>drug1 = ''Aspirin'', drug2 = ''Warfarin'', severity = ''severe'',
      description = ''bleeding risk'', recommendation = [],
      mechanism = Some [], evidence_level = Some []\<rparr>"

definition warfarinNsaid :: DrugInteractionData where
  "warfarinNsaid =
     \<lparr>drug1 = ''Warfarin sodium'', drug2 = ''Aspirin (NSAID)'', severity = ''moderate'',
      description = ''monitor INR'', recommendation = ''Check INR weekly'',
      mechanism = None, evidence_level = None\<rparr>"

definition metforminContrast :: DrugInteractionData where
  "metforminContrast =
     \<lparr>drug1 = ''Metformin'', drug2 = ''Contrast Agent'', severity = ''moderate'',
      description = ''lactic acidosis'', recommendation = ''Pause metformin'',
      mechanism = None, evidence_level = None\<rparr>"

definition entry :: "string \<Rightarrow> string \<Rightarrow> DrugEntry" where
  "entry i n = \<lparr>drug_id = i, name = n, dosage = [], frequency = []\<rparr>"

definition sampleDashboard :: "DrugInteractionData list option \<Rightarrow> Dashboard" where
  "sampleDashboard table =
     \<lparr>drugEntries = [entry ''1'' ''Aspirin'', entry ''2'' ''Warfarin''],
      patientAllergies = [],
      activeDataset = table,
      analyzing = True,
      results = [],
      allergyAlerts = []\<rparr>"

text \<open>
  A dataset manager before any upload, a clock, and a CSV file with the header of the
  first scenario and the given data rows.
\<close>

definition emptyManager :: Manager where
  "emptyManager = \<lparr>datasets = [], activeDatasetId = None, uploading = True, previewData = None\<rparr>"

definition sampleClock :: Clock where
  "sampleClock = \<lparr>now = 1730000000000, isoString = ''2024-10-27T03:33:20.000Z''\<rparr>"

definition csvHeader :: string where
  "csvHeader = ''drug1,drug2,severity,description''"

definition csvFile :: "string \<Rightarrow> File" where
  "csvFile row =
     \<lparr>file_name = ''data.csv'', file_text = csvHeader @ [CHR 0x0A] @ row, file_size = 64\<rparr>"


section \<open>Properties of the string primitives\<close>

text \<open>A loop that only pushes to an array appends the concatenation of what each step pushes.\<close>

lemma fold_push_concat:
  assumes "\<And>x acc. f x acc = acc @ g x"
  shows "fold f xs acc = acc @ concat (map g xs)"
  using assms by (induction xs arbitrary: acc) simp_all

lemma in_set_concat_map: "x \<in> set (concat (map g xs)) \<longleftrightarrow> (\<exists>y \<in> set xs. x \<in> set (g y))"
  by auto

text \<open>\<open>includes\<close> holds exactly of the contiguous substrings.\<close>

lemma startsWith_iff: "startsWith s t \<longleftrightarrow> (\<exists>q. s = t @ q)"
  by (induction s t rule: startsWith.induct) auto

lemma includesStr_iff: "includesStr s t \<longleftrightarrow> (\<exists>p q. s = p @ t @ q)"
proof (induction s)
  case Nil
  show ?case by auto
next
  case (Cons a s)
  show ?case
  proof
    assume "includesStr (a # s) t"
    then consider "startsWith (a # s) t" | "includesStr s t" by auto
    then show "\<exists>p q. a # s = p @ t @ q"
    proof cases
      case 1
      then obtain q where "a # s = t @ q" by (auto simp: startsWith_iff)
      then have "a # s = [] @ t @ q" by simp
      then show ?thesis by blast
    next
      case 2
      then obtain p q where "s = p @ t @ q" using Cons.IH by blast
      then have "a # s = (a # p) @ t @ q" by simp
      then show ?thesis by blast
    qed
  next
    assume "\<exists>p q. a # s = p @ t @ q"
    then obtain p q where pq: "a # s = p @ t @ q" by blast
    show "includesStr (a # s) t"
    proof (cases p)
      case Nil
      with pq have "startsWith (a # s) t" unfolding startsWith_iff by auto
      then show ?thesis by simp
    next
      case (Cons b p')
      with pq have "s = p' @ t @ q" by simp
      then have "includesStr s t" using Cons.IH by blast
      then show ?thesis by simp
    qed
  qed
qed

lemma includesStr_refl: "includesStr s s"
proof -
  have "s = [] @ s @ []" by simp
  then show ?thesis unfolding includesStr_iff by blast
qed


section \<open>Interaction matching: the loop and the lookup\<close>

text \<open>
  The predicate of the code is the containment rule: its two equality disjuncts are
  instances of containment.
\<close>

lemma matchesItem_containmentRule: "matchesItem a b r = containmentRule r a b"
  unfolding matchesItem_def containmentRule_def
  using includesStr_refl by auto

lemma find_matchesItem:
  "List.find (matchesItem a b) T = List.find (\<lambda>r. containmentRule r a b) T"
  by (simp add: matchesItem_containmentRule [abs_def])

text \<open>\<open>find\<close> returns the first record in table order that satisfies the rule.\<close>

lemma pairResult_Some_iff:
  "pairResult T di dj = Some f \<longleftrightarrow>
     (\<exists>k < length T. containmentRule (T ! k) (toLowerCase (name di)) (toLowerCase (name dj)) \<and>
        (\<forall>k' < k. \<not> containmentRule (T ! k') (toLowerCase (name di)) (toLowerCase (name dj))) \<and>
        f = finding (T ! k) di dj)"
  (is "?L \<longleftrightarrow> ?R")
proof
  assume ?L
  then obtain r where r: "List.find (\<lambda>r. containmentRule r (toLowerCase (name di)) (toLowerCase (name dj))) T = Some r"
    and f: "f = finding r di dj"
    unfolding pairResult_def finding_def find_matchesItem
    by (auto split: option.splits)
  from r show ?R unfolding find_Some_iff f by blast
next
  assume ?R
  then obtain k where k: "k < length T"
      "containmentRule (T ! k) (toLowerCase (name di)) (toLowerCase (name dj))"
      "\<forall>k' < k. \<not> containmentRule (T ! k') (toLowerCase (name di)) (toLowerCase (name dj))"
      "f = finding (T ! k) di dj"
    by blast
  then have "List.find (\<lambda>r. containmentRule r (toLowerCase (name di)) (toLowerCase (name dj))) T = Some (T ! k)"
    unfolding find_Some_iff by blast
  then show ?L
    unfolding pairResult_def find_matchesItem using k(4) by (simp add: finding_def)
qed

lemma pairResult_None_iff:
  "pairResult T di dj = None \<longleftrightarrow>
     \<not> (\<exists>r \<in> set T. containmentRule r (toLowerCase (name di)) (toLowerCase (name dj)))"
proof -
  have "pairResult T di dj = None \<longleftrightarrow>
      List.find (\<lambda>r. containmentRule r (toLowerCase (name di)) (toLowerCase (name dj))) T = None"
    unfolding pairResult_def find_matchesItem by (simp split: option.splits)
  then show ?thesis unfolding find_None_iff by blast
qed

text \<open>The nested loops visit each pair of positions \<open>i < j\<close> once, in order.\<close>

lemma datasetInteractions_concat:
  "datasetInteractions ds T =
     concat (map (\<lambda>i. concat (map (\<lambda>j. case pairResult T (ds ! i) (ds ! j) of
                                          None \<Rightarrow> [] | Some r \<Rightarrow> [r])
                                 [Suc i ..< length ds]))
                 [0 ..< length ds])"
proof -
  have inner: "fold (\<lambda>j acc. case pairResult T (ds ! i) (ds ! j) of None \<Rightarrow> acc | Some r \<Rightarrow> acc @ [r]) js found
      = found @ concat (map (\<lambda>j. case pairResult T (ds ! i) (ds ! j) of None \<Rightarrow> [] | Some r \<Rightarrow> [r]) js)"
    for i js found
    by (rule fold_push_concat) (simp split: option.splits)
  show ?thesis
    unfolding datasetInteractions_def inner
    by (simp add: fold_push_concat)
qed

lemma set_datasetInteractions:
  "f \<in> set (datasetInteractions ds T) \<longleftrightarrow>
     (\<exists>i j. i < j \<and> j < length ds \<and> pairResult T (ds ! i) (ds ! j) = Some f)"
  (is "?L \<longleftrightarrow> ?R")
proof
  assume ?L
  then obtain i j where "i < length ds" "Suc i \<le> j" "j < length ds"
      "f \<in> set (case pairResult T (ds ! i) (ds ! j) of None \<Rightarrow> [] | Some r \<Rightarrow> [r])"
    unfolding datasetInteractions_concat in_set_concat_map by auto
  then have "i < j \<and> j < length ds \<and> pairResult T (ds ! i) (ds ! j) = Some f"
    by (cases "pairResult T (ds ! i) (ds ! j)") auto
  then show ?R by blast
next
  assume ?R
  then obtain i j where ij: "i < j" "j < length ds" "pairResult T (ds ! i) (ds ! j) = Some f"
    by blast
  then have "i \<in> set [0 ..< length ds]" "j \<in> set [Suc i ..< length ds]"
    "f \<in> set (case pairResult T (ds ! i) (ds ! j) of None \<Rightarrow> [] | Some r \<Rightarrow> [r])"
    by auto
  then show ?L unfolding datasetInteractions_concat in_set_concat_map by (intro bexI)
qed

lemma results_cases:
  "results (analyzeInteractions s) =
     (case activeDataset s of None \<Rightarrow> mockInteractions
      | Some T \<Rightarrow> if T = [] then mockInteractions else datasetInteractions (drugEntries s) T)"
  by (simp add: analyzeInteractions_def Let_def split: option.splits)

lemma results_active:
  "activeDataset s = Some T \<Longrightarrow> T \<noteq> [] \<Longrightarrow>
     results (analyzeInteractions s) = datasetInteractions (drugEntries s) T"
  by (simp add: analyzeInteractions_def Let_def)

text \<open>The rule does not depend on the order of the two names.\<close>

lemma containmentRule_commute: "containmentRule r a b = containmentRule r b a"
  unfolding containmentRule_def by blast

lemma pairResult_swap:
  assumes "pairResult T a b = Some f"
  shows "\<exists>f'. pairResult T b a = Some f' \<and> res_severity f' = res_severity f \<and>
           res_description f' = res_description f \<and>
           res_recommendation f' = res_recommendation f \<and> drugs f' = rev (drugs f)"
proof -
  from assms obtain k where k: "k < length T"
      "containmentRule (T ! k) (toLowerCase (name a)) (toLowerCase (name b))"
      "\<forall>k' < k. \<not> containmentRule (T ! k') (toLowerCase (name a)) (toLowerCase (name b))"
      "f = finding (T ! k) a b"
    unfolding pairResult_Some_iff by blast
  have "pairResult T b a = Some (finding (T ! k) b a)"
    unfolding pairResult_Some_iff
    using k(1-3) containmentRule_commute [of _ "toLowerCase (name b)" "toLowerCase (name a)"]
    by blast
  then show ?thesis using k(4) by (simp add: finding_def)
qed

lemma transfer_findings:
  assumes len: "length ds' = length ds"
    and perm: "\<And>x. x < length ds \<Longrightarrow> p x < length ds \<and> ds' ! (p x) = ds ! x"
    and inj: "\<And>x y. x < length ds \<Longrightarrow> y < length ds \<Longrightarrow> p x = p y \<Longrightarrow> x = y"
    and f: "f \<in> set (datasetInteractions ds T)"
  shows "\<exists>f' \<in> set (datasetInteractions ds' T).
           res_severity f' = res_severity f \<and> res_description f' = res_description f \<and>
           res_recommendation f' = res_recommendation f \<and>
           (drugs f' = drugs f \<or> drugs f' = rev (drugs f))"
proof -
  from f obtain i j where ij: "i < j" "j < length ds" "pairResult T (ds ! i) (ds ! j) = Some f"
    unfolding set_datasetInteractions by blast
  have i: "p i < length ds'" "ds' ! (p i) = ds ! i" using perm [of i] ij len by auto
  have j: "p j < length ds'" "ds' ! (p j) = ds ! j" using perm [of j] ij len by auto
  have ne: "p i \<noteq> p j" using inj [of i j] ij by auto
  show ?thesis
  proof (cases "p i < p j")
    case True
    then have "f \<in> set (datasetInteractions ds' T)"
      unfolding set_datasetInteractions using i j ij(3) by metis
    then show ?thesis by blast
  next
    case False
    then have lt: "p j < p i" using ne by simp
    from pairResult_swap [OF ij(3)] obtain f' where f':
        "pairResult T (ds ! j) (ds ! i) = Some f'" "res_severity f' = res_severity f"
        "res_description f' = res_description f" "res_recommendation f' = res_recommendation f"
        "drugs f' = rev (drugs f)"
      by blast
    have "f' \<in> set (datasetInteractions ds' T)"
      unfolding set_datasetInteractions using i j lt f'(1) by metis
    then show ?thesis using f' by blast
  qed
qed

lemma swapEntries_nth:
  "i < length xs \<Longrightarrow> j < length xs \<Longrightarrow> x < length xs \<Longrightarrow>
     swapEntries i j xs ! (swapIndex i j x) = xs ! x"
  by (auto simp: swapEntries_def swapIndex_def nth_list_update)

lemma swapEntries_nth':
  "i < length xs \<Longrightarrow> j < length xs \<Longrightarrow> x < length xs \<Longrightarrow>
     xs ! (swapIndex i j x) = swapEntries i j xs ! x"
  by (auto simp: swapEntries_def swapIndex_def nth_list_update)

lemma swapIndex_less: "i < n \<Longrightarrow> j < n \<Longrightarrow> x < n \<Longrightarrow> swapIndex i j x < n"
  by (simp add: swapIndex_def)

lemma swapIndex_inj: "swapIndex i j x = swapIndex i j y \<Longrightarrow> x = y"
  by (auto simp: swapIndex_def split: if_splits)

lemma length_swapEntries: "length (swapEntries i j xs) = length xs"
  by (simp add: swapEntries_def)

text \<open>The definitions that the simplifier unfolds to run the analysis on an example.\<close>

lemmas eval_defs =
  toLowerCase_def toLowerCase_char_def isUpperCase_def char_of_def bit_Suc_0_iff trim_def isWhiteSpace_def truthy_def js_or_def
  containmentRule_def matchesItem_def pairResult_def datasetInteractions_def
  analyzeInteractions_def entry_def sampleDashboard_def aspirinWarfarin_def
  warfarinNsaid_def metforminContrast_def

section \<open>Claims about interaction matching\<close>

text \<open>
  Claim C1. With an uploaded table \<open>T\<close> active, the analysis emits a finding for the pair
  of entries at positions \<open>i < j\<close> (a finding showing their two names in entry order)
  if and only if some record of \<open>T\<close> satisfies the containment rule for their lowercased
  names. An uploaded table is never empty: the upload handler rejects a file with no valid
  record (\<open>upload_added\<close>).
\<close>

theorem finding_iff_containment:
  assumes "activeDataset s = Some T" and "T \<noteq> []"
    and "i < j" and "j < length (drugEntries s)"
  shows "(\<exists>f \<in> set (results (analyzeInteractions s)).
            drugs f = [name (drugEntries s ! i), name (drugEntries s ! j)]) \<longleftrightarrow>
         (\<exists>r \<in> set T. containmentRule r (toLowerCase (name (drugEntries s ! i)))
                                        (toLowerCase (name (drugEntries s ! j))))"
  (is "?L \<longleftrightarrow> ?R")
proof
  let ?ds = "drugEntries s"
  have res: "results (analyzeInteractions s) = datasetInteractions ?ds T"
    using assms(1,2) by (rule results_active)
  {
    assume ?L
    then obtain f where fin: "f \<in> set (datasetInteractions ?ds T)"
      and d: "drugs f = [name (?ds ! i), name (?ds ! j)]"
      unfolding res by blast
    from fin obtain p q where pq: "p < q" "q < length ?ds" "pairResult T (?ds ! p) (?ds ! q) = Some f"
      unfolding set_datasetInteractions by blast
    from pq(3) obtain k where k: "k < length T"
        "containmentRule (T ! k) (toLowerCase (name (?ds ! p))) (toLowerCase (name (?ds ! q)))"
        "f = finding (T ! k) (?ds ! p) (?ds ! q)"
      unfolding pairResult_Some_iff by blast
    from k(3) d have "name (?ds ! p) = name (?ds ! i)" "name (?ds ! q) = name (?ds ! j)"
      by (simp_all add: finding_def)
    with k(1,2) show ?R using nth_mem [of k T] by auto
  }
  {
    assume ?R
    then have "pairResult T (?ds ! i) (?ds ! j) \<noteq> None"
      unfolding pairResult_None_iff by simp
    then obtain f where f: "pairResult T (?ds ! i) (?ds ! j) = Some f" by blast
    then have "drugs f = [name (?ds ! i), name (?ds ! j)]"
      unfolding pairResult_Some_iff by (auto simp: finding_def)
    moreover have "f \<in> set (results (analyzeInteractions s))"
      unfolding res set_datasetInteractions using f assms(3,4) by blast
    ultimately show ?L by blast
  }
qed

text \<open>
  The theorem at the table of one record Aspirin/Warfarin and the entries Aspirin and
  Warfarin: the record satisfies the rule, and the finding is emitted.
\<close>

theorem finding_iff_containment_witness:
  "activeDataset (sampleDashboard (Some [aspirinWarfarin])) = Some [aspirinWarfarin] \<and>
   [aspirinWarfarin] \<noteq> [] \<and> (0::nat) < 1 \<and>
   1 < length (drugEntries (sampleDashboard (Some [aspirinWarfarin]))) \<and>
   containmentRule aspirinWarfarin ''aspirin'' ''warfarin'' \<and>
   [''Aspirin'', ''Warfarin'']
     \<in> set (map drugs (results (analyzeInteractions (sampleDashboard (Some [aspirinWarfarin])))))"
proof -
  let ?s = "sampleDashboard (Some [aspirinWarfarin])"
  have h1: "activeDataset ?s = Some [aspirinWarfarin]" by (simp add: sampleDashboard_def)
  have h2: "[aspirinWarfarin] \<noteq> []" by simp
  have h3: "(0::nat) < 1" by simp
  have h4: "1 < length (drugEntries ?s)" by (simp add: sampleDashboard_def)
  have names: "name (drugEntries ?s ! 0) = ''Aspirin''" "name (drugEntries ?s ! 1) = ''Warfarin''"
    by (simp_all add: sampleDashboard_def entry_def)
  have rule: "containmentRule aspirinWarfarin ''aspirin'' ''warfarin''"
    by (simp add: eval_defs)
  have low: "toLowerCase ''Aspirin'' = ''aspirin''" "toLowerCase ''Warfarin'' = ''warfarin''"
    by (simp_all add: eval_defs)
  from finding_iff_containment [OF h1 h2 h3 h4] rule
  have "\<exists>f \<in> set (results (analyzeInteractions ?s)). drugs f = [''Aspirin'', ''Warfarin'']"
    unfolding names low by simp
  then have "[''Aspirin'', ''Warfarin''] \<in> set (map drugs (results (analyzeInteractions ?s)))"
    by force
  with h1 h2 h3 h4 rule show ?thesis by blast
qed

text \<open>
  Claim C2. When no dataset is active the analysis returns the built-in sample list as it
  is, whatever the medication entries: Warfarin with Aspirin, severe, and Metformin with
  Contrast Agent, moderate.
\<close>

theorem no_dataset_gives_samples:
  assumes "activeDataset s = None"
  shows "results (analyzeInteractions s) = mockInteractions \<and>
         map (\<lambda>f. (drugs f, res_severity f)) mockInteractions =
           [([''Warfarin'', ''Aspirin''], ''severe''),
            ([''Metformin'', ''Contrast Agent''], ''moderate'')]"
  using assms by (simp add: results_cases mockInteractions_def)

text \<open>The theorem at the dashboard with the entries Aspirin and Warfarin and no dataset.\<close>

theorem no_dataset_gives_samples_witness:
  "activeDataset (sampleDashboard None) = None \<and>
   results (analyzeInteractions (sampleDashboard None)) = mockInteractions"
proof -
  have h: "activeDataset (sampleDashboard None) = None" by (simp add: sampleDashboard_def)
  from no_dataset_gives_samples [OF h] h show ?thesis by simp
qed

text \<open>
  Claim C5. With an uploaded table \<open>T\<close> active, when \<open>T ! k\<close> is the first record in table
  order that satisfies the containment rule for the entries at positions \<open>i < j\<close>, the
  findings showing these two names are exactly the one finding that carries the severity,
  description and recommendation of \<open>T ! k\<close> and the two display names in entry order.
\<close>

theorem first_record_used:
  assumes "activeDataset s = Some T" and "T \<noteq> []"
    and "i < j" and "j < length (drugEntries s)"
    and "k < length T"
    and "containmentRule (T ! k) (toLowerCase (name (drugEntries s ! i)))
                                 (toLowerCase (name (drugEntries s ! j)))"
    and "\<forall>k' < k. \<not> containmentRule (T ! k') (toLowerCase (name (drugEntries s ! i)))
                                              (toLowerCase (name (drugEntries s ! j)))"
  shows "{f \<in> set (results (analyzeInteractions s)).
            drugs f = [name (drugEntries s ! i), name (drugEntries s ! j)]} =
         {\<lparr>res_severity = severity (T ! k),
           drugs = [name (drugEntries s ! i), name (drugEntries s ! j)],
           res_description = description (T ! k),
           res_recommendation = recommendation (T ! k)\<rparr>}"
  (is "?A = {?g}")
proof -
  let ?ds = "drugEntries s"
  let ?a = "toLowerCase (name (?ds ! i))"
  let ?b = "toLowerCase (name (?ds ! j))"
  have res: "results (analyzeInteractions s) = datasetInteractions ?ds T"
    using assms(1,2) by (rule results_active)
  have g: "?g = finding (T ! k) (?ds ! i) (?ds ! j)" by (simp add: finding_def)
  have "pairResult T (?ds ! i) (?ds ! j) = Some ?g"
    unfolding pairResult_Some_iff g using assms(5-7) by blast
  then have "?g \<in> set (results (analyzeInteractions s))"
    unfolding res set_datasetInteractions using assms(3,4) by blast
  then have in_A: "?g \<in> ?A" by simp
  have "f = ?g" if "f \<in> ?A" for f
  proof -
    from that have fin: "f \<in> set (datasetInteractions ?ds T)"
      and d: "drugs f = [name (?ds ! i), name (?ds ! j)]"
      unfolding res by simp_all
    from fin obtain p q where pq: "pairResult T (?ds ! p) (?ds ! q) = Some f"
      unfolding set_datasetInteractions by blast
    from pq obtain m where m: "m < length T"
        "containmentRule (T ! m) (toLowerCase (name (?ds ! p))) (toLowerCase (name (?ds ! q)))"
        "\<forall>m' < m. \<not> containmentRule (T ! m') (toLowerCase (name (?ds ! p))) (toLowerCase (name (?ds ! q)))"
        "f = finding (T ! m) (?ds ! p) (?ds ! q)"
      unfolding pairResult_Some_iff by blast
    from m(4) d have n: "name (?ds ! p) = name (?ds ! i)" "name (?ds ! q) = name (?ds ! j)"
      by (simp_all add: finding_def)
    have "\<not> m < k" using m(2) assms(7) unfolding n by blast
    moreover have "\<not> k < m" using m(3) assms(6) unfolding n by blast
    ultimately have "m = k" by simp
    then show ?thesis using m(4) n by (simp add: finding_def)
  qed
  with in_A show ?thesis by blast
qed

text \<open>
  The theorem at a table of three records, of which the second and the third match
  Aspirin with Warfarin: the finding carries the second record's fields.
\<close>

theorem first_record_used_witness:
  "activeDataset (sampleDashboard (Some [metforminContrast, warfarinNsaid, aspirinWarfarin]))
     = Some [metforminContrast, warfarinNsaid, aspirinWarfarin] \<and>
   [metforminContrast, warfarinNsaid, aspirinWarfarin] \<noteq> [] \<and> (0::nat) < 1 \<and>
   1 < length (drugEntries (sampleDashboard (Some [metforminContrast, warfarinNsaid, aspirinWarfarin]))) \<and>
   (1::nat) < length [metforminContrast, warfarinNsaid, aspirinWarfarin] \<and>
   containmentRule warfarinNsaid ''aspirin'' ''warfarin'' \<and>
   \<not> containmentRule metforminContrast ''aspirin'' ''warfarin'' \<and>
   containmentRule aspirinWarfarin ''aspirin'' ''warfarin'' \<and>
   \<lparr>res_severity = ''moderate'', drugs = [''Aspirin'', ''Warfarin''],
    res_description = ''monitor INR'', res_recommendation = ''Check INR weekly''\<rparr>
     \<in> set (results (analyzeInteractions
               (sampleDashboard (Some [metforminContrast, warfarinNsaid, aspirinWarfarin]))))"
proof -
  let ?T = "[metforminContrast, warfarinNsaid, aspirinWarfarin]"
  let ?s = "sampleDashboard (Some ?T)"
  have ds: "drugEntries ?s = [entry ''1'' ''Aspirin'', entry ''2'' ''Warfarin'']"
    by (simp add: sampleDashboard_def)
  have low: "toLowerCase (name (drugEntries ?s ! 0)) = ''aspirin''"
    "toLowerCase (name (drugEntries ?s ! 1)) = ''warfarin''"
    unfolding ds by (simp_all add: eval_defs)
  have h1: "activeDataset ?s = Some ?T" by (simp add: sampleDashboard_def)
  have h2: "?T \<noteq> []" by simp
  have h3: "(0::nat) < 1" by simp
  have h4: "1 < length (drugEntries ?s)" unfolding ds by simp
  have h5: "(1::nat) < length ?T" by simp
  have r1: "containmentRule warfarinNsaid ''aspirin'' ''warfarin''" by (simp add: eval_defs)
  have r0: "\<not> containmentRule metforminContrast ''aspirin'' ''warfarin''" by (simp add: eval_defs)
  have r2: "containmentRule aspirinWarfarin ''aspirin'' ''warfarin''" by (simp add: eval_defs)
  have h6: "containmentRule (?T ! 1) (toLowerCase (name (drugEntries ?s ! 0)))
                                     (toLowerCase (name (drugEntries ?s ! 1)))"
    unfolding low using r1 by simp
  have h7: "\<forall>k' < 1. \<not> containmentRule (?T ! k') (toLowerCase (name (drugEntries ?s ! 0)))
                                                  (toLowerCase (name (drugEntries ?s ! 1)))"
    unfolding low using r0 by simp
  let ?g = "\<lparr>res_severity = severity (?T ! 1),
           drugs = [name (drugEntries ?s ! 0), name (drugEntries ?s ! 1)],
           res_description = description (?T ! 1),
           res_recommendation = recommendation (?T ! 1)\<rparr>"
  from first_record_used [OF h1 h2 h3 h4 h5 h6 h7]
  have "?g \<in> set (results (analyzeInteractions ?s))" by blast
  moreover have "?g = \<lparr>res_severity = ''moderate'', drugs = [''Aspirin'', ''Warfarin''],
    res_description = ''monitor INR'', res_recommendation = ''Check INR weekly''\<rparr>"
    unfolding ds by (simp add: entry_def warfarinNsaid_def)
  ultimately show ?thesis using h1 h2 h3 h4 h5 r0 r1 r2 by simp
qed

text \<open>
  Claim C8. Exchanging two entries of the medication list keeps the matched records:
  every finding of the one analysis has a finding of the other with the same severity,
  description and recommendation, whose two drug names are the same in the same or in the
  opposite order; and conversely.
\<close>

theorem swap_keeps_matched_record:
  assumes "i < length (drugEntries s)" "j < length (drugEntries s)"
    and "s' = s\<lparr>drugEntries := swapEntries i j (drugEntries s)\<rparr>"
  shows "(\<forall>f \<in> set (results (analyzeInteractions s)).
            \<exists>f' \<in> set (results (analyzeInteractions s')).
              res_severity f' = res_severity f \<and> res_description f' = res_description f \<and>
              res_recommendation f' = res_recommendation f \<and>
              (drugs f' = drugs f \<or> drugs f' = rev (drugs f))) \<and>
         (\<forall>f' \<in> set (results (analyzeInteractions s')).
            \<exists>f \<in> set (results (analyzeInteractions s)).
              res_severity f = res_severity f' \<and> res_description f = res_description f' \<and>
              res_recommendation f = res_recommendation f' \<and>
              (drugs f = drugs f' \<or> drugs f = rev (drugs f')))"
proof (cases "activeDataset s")
  case None
  then have "results (analyzeInteractions s') = results (analyzeInteractions s)"
    using assms(3) by (simp add: results_cases)
  then show ?thesis by auto
next
  case (Some T)
  show ?thesis
  proof (cases "T = []")
    case True
    then have "results (analyzeInteractions s') = results (analyzeInteractions s)"
      using Some assms(3) by (simp add: results_cases)
    then show ?thesis by auto
  next
    case False
    let ?ds = "drugEntries s"
    let ?ds' = "swapEntries i j ?ds"
    have r: "results (analyzeInteractions s) = datasetInteractions ?ds T"
      using Some False by (simp add: results_cases)
    have r': "results (analyzeInteractions s') = datasetInteractions ?ds' T"
      using Some False assms(3) by (simp add: results_cases)
    have fwd: "\<exists>f' \<in> set (datasetInteractions ?ds' T).
           res_severity f' = res_severity f \<and> res_description f' = res_description f \<and>
           res_recommendation f' = res_recommendation f \<and>
           (drugs f' = drugs f \<or> drugs f' = rev (drugs f))"
      if "f \<in> set (datasetInteractions ?ds T)" for f
    proof (rule transfer_findings [where p = "swapIndex i j", OF _ _ _ that])
      show "length ?ds' = length ?ds" by (rule length_swapEntries)
      show "swapIndex i j x < length ?ds \<and> ?ds' ! swapIndex i j x = ?ds ! x"
        if "x < length ?ds" for x
        using that assms(1,2) swapIndex_less swapEntries_nth by blast
      show "x = y" if "swapIndex i j x = swapIndex i j y" for x y
        using that by (rule swapIndex_inj)
    qed
    have bwd: "\<exists>f \<in> set (datasetInteractions ?ds T).
           res_severity f = res_severity f' \<and> res_description f = res_description f' \<and>
           res_recommendation f = res_recommendation f' \<and>
           (drugs f = drugs f' \<or> drugs f = rev (drugs f'))"
      if "f' \<in> set (datasetInteractions ?ds' T)" for f'
    proof (rule transfer_findings [where p = "swapIndex i j", OF _ _ _ that])
      show "length ?ds = length ?ds'" by (simp add: length_swapEntries)
      show "swapIndex i j x < length ?ds' \<and> ?ds ! swapIndex i j x = ?ds' ! x"
        if "x < length ?ds'" for x
        using that assms(1,2) swapIndex_less [of i "length ?ds" j x] swapEntries_nth' [of i ?ds j x]
        by (simp add: length_swapEntries)
      show "x = y" if "swapIndex i j x = swapIndex i j y" for x y
        using that by (rule swapIndex_inj)
    qed
    show ?thesis unfolding r r' using fwd bwd by blast
  qed
qed

text \<open>
  The theorem at the entries Aspirin, Warfarin and the one-record table: after the
  exchange the analysis still reports the record's severity.
\<close>

theorem swap_keeps_matched_record_witness:
  "(0::nat) < length (drugEntries (sampleDashboard (Some [aspirinWarfarin]))) \<and>
   1 < length (drugEntries (sampleDashboard (Some [aspirinWarfarin]))) \<and>
   map res_severity (results (analyzeInteractions (sampleDashboard (Some [aspirinWarfarin]))))
     = [''severe''] \<and>
   ''severe'' \<in> set (map res_severity (results (analyzeInteractions
      ((sampleDashboard (Some [aspirinWarfarin]))
         \<lparr>drugEntries := swapEntries 0 1 (drugEntries (sampleDashboard (Some [aspirinWarfarin])))\<rparr>))))"
proof -
  let ?s = "sampleDashboard (Some [aspirinWarfarin])"
  let ?s' = "?s\<lparr>drugEntries := swapEntries 0 1 (drugEntries ?s)\<rparr>"
  have h1: "0 < length (drugEntries ?s)" by (simp add: sampleDashboard_def)
  have h2: "1 < length (drugEntries ?s)" by (simp add: sampleDashboard_def)
  have res: "results (analyzeInteractions ?s) =
      [\<lparr>res_severity = ''severe'', drugs = [''Aspirin'', ''Warfarin''],
        res_description = ''bleeding risk'', res_recommendation = []\<rparr>]"
    by (simp add: eval_defs)
  from swap_keeps_matched_record [OF h1 h2 refl]
  have "\<forall>f \<in> set (results (analyzeInteractions ?s)).
          \<exists>f' \<in> set (results (analyzeInteractions ?s')). res_severity f' = res_severity f"
    by blast
  then have "\<exists>f' \<in> set (results (analyzeInteractions ?s')). res_severity f' = ''severe''"
    unfolding res by simp
  then have "''severe'' \<in> set (map res_severity (results (analyzeInteractions ?s')))"
    by force
  then show ?thesis using h1 h2 res by simp
qed

section \<open>Allergy matching: the alerts of a pair\<close>

text \<open>The alerts of \<open>checkAllergies\<close>, pair by pair.\<close>

lemma checkPair_eq:
  "checkPair d allergy alerts =
     alerts @
     (if includesStr (toLowerCase (name d)) (trim (toLowerCase allergy)) \<or>
         includesStr (trim (toLowerCase allergy)) (toLowerCase (name d))
      then [directAlert d allergy] else []) @
     classAlerts d allergy"
proof -
  have step: "fold (\<lambda>(key, info) acc.
                 if includesStr (trim (toLowerCase allergy)) key \<and>
                    list_ex (\<lambda>a. includesStr (toLowerCase (name d)) a) (allergens info)
                 then acc @ [classAlert d allergy key info] else acc) xs acc0
      = acc0 @ concat (map (\<lambda>(key, info).
                    if includesStr (trim (toLowerCase allergy)) key \<and>
                       list_ex (\<lambda>a. includesStr (toLowerCase (name d)) a) (allergens info)
                    then [classAlert d allergy key info] else []) xs)" for xs acc0
    by (rule fold_push_concat) (simp split: prod.splits)
  show ?thesis
    unfolding checkPair_def Let_def step classAlerts_def by simp
qed

lemma checkAllergies_concat:
  "checkAllergies ds allergies =
     concat (map (\<lambda>d. concat (map (\<lambda>allergy. checkPair d allergy []) allergies)) ds)"
proof -
  have inner: "fold (\<lambda>allergy acc. checkPair d allergy acc) as alerts
      = alerts @ concat (map (\<lambda>allergy. checkPair d allergy []) as)" for d as alerts
    by (rule fold_push_concat) (simp add: checkPair_eq)
  show ?thesis
    unfolding checkAllergies_def inner by (simp add: fold_push_concat)
qed

lemma set_checkAllergies:
  "al \<in> set (checkAllergies ds allergies) \<longleftrightarrow>
     (\<exists>d \<in> set ds. \<exists>allergy \<in> set allergies. al \<in> set (checkPair d allergy []))"
  unfolding checkAllergies_concat in_set_concat_map ..

lemma class_severity:
  assumes "(key, info) \<in> set commonAllergicReactions"
  shows "info_severity info \<in> {''severe'', ''moderate'', ''mild''}"
  using assms unfolding commonAllergicReactions_def by auto

lemma classAlerts_severity:
  assumes "al \<in> set (classAlerts d allergy)"
  shows "alert_severity al \<in> {''severe'', ''moderate'', ''mild''}"
proof -
  from assms obtain key info where ki: "(key, info) \<in> set commonAllergicReactions"
    and al: "al = classAlert d allergy key info"
    unfolding classAlerts_def in_set_concat_map by (auto split: if_splits)
  from class_severity [OF ki] show ?thesis unfolding al by (simp add: classAlert_def)
qed

lemmas allergy_eval_defs =
  checkAllergies_def checkPair_def commonAllergicReactions_def directAlert_def classAlert_def
  toLowerCase_def toLowerCase_char_def isUpperCase_def char_of_def bit_Suc_0_iff trim_def isWhiteSpace_def entry_def Let_def

section \<open>Claims about allergy matching\<close>

text \<open>
  Claim C4 as stated, with both strings trimmed, fails for a medication name that ends with
  a space, which \<open>addDrug\<close> stores as typed: after trimming, the term oral ibuprofen
  contains the name, and no alert is emitted, with this entry alone and with a second
  entry beside it.
\<close>

theorem untrimmed_name_no_alert:
  "map name (addDrug 1 ''Ibuprofen '' [] [] []) = [''Ibuprofen ''] \<and>
   includesStr (trim (toLowerCase ''oral ibuprofen'')) (trim (toLowerCase ''Ibuprofen '')) \<and>
   checkAllergies (addDrug 1 ''Ibuprofen '' [] [] []) [''oral ibuprofen''] = [] \<and>
   checkAllergies (addDrug 2 ''Paracetamol'' [] [] (addDrug 1 ''Ibuprofen '' [] [] []))
     [''oral ibuprofen''] = []"
  by (simp add: allergy_eval_defs addDrug_def truthy_def)

text \<open>
  Claim C4, as the code has it. The allergy term is lowercased and trimmed, the medication
  name is lowercased and not trimmed. For every entry and every allergy term of the inputs,
  when one of the two normalised strings contains the other, \<open>checkAllergies\<close> emits the
  alert of severity \<open>severe\<close> whose recommendation is AVOID, the drug name, and the allergy
  term.
\<close>

theorem direct_match_alert:
  assumes "d \<in> set ds" and "allergy \<in> set allergies"
    and "includesStr (toLowerCase (name d)) (trim (toLowerCase allergy)) \<or>
         includesStr (trim (toLowerCase allergy)) (toLowerCase (name d))"
  shows "\<lparr>drug = name d, allergen = allergy, alert_severity = ''severe'',
          symptoms = ''Allergic reaction possible'',
          alert_recommendation = ''AVOID '' @ name d @ '' - Patient is allergic to '' @ allergy\<rparr>
           \<in> set (checkAllergies ds allergies)"
proof -
  have "directAlert d allergy \<in> set (checkPair d allergy [])"
    unfolding checkPair_eq using assms(3) by simp
  then have "directAlert d allergy \<in> set (checkAllergies ds allergies)"
    unfolding set_checkAllergies using assms(1,2) by blast
  then show ?thesis by (simp add: directAlert_def)
qed

text \<open>
  The theorem for claim C4 at a medication name with a trailing space, which contains the
  allergy term.
\<close>

theorem direct_match_alert_witness:
  "entry ''1'' ''Ibuprofen '' \<in> set [entry ''1'' ''Ibuprofen ''] \<and>
   ''ibuprofen'' \<in> set [''ibuprofen''] \<and>
   includesStr (toLowerCase ''Ibuprofen '') (trim (toLowerCase ''ibuprofen'')) \<and>
   \<lparr>drug = ''Ibuprofen '', allergen = ''ibuprofen'', alert_severity = ''severe'',
    symptoms = ''Allergic reaction possible'',
    alert_recommendation = ''AVOID Ibuprofen  - Patient is allergic to ibuprofen''\<rparr>
     \<in> set (checkAllergies [entry ''1'' ''Ibuprofen ''] [''ibuprofen''])"
proof -
  let ?d = "entry ''1'' ''Ibuprofen ''"
  have h1: "?d \<in> set [?d]" by simp
  have h2: "''ibuprofen'' \<in> set [''ibuprofen'']" by simp
  have n: "name ?d = ''Ibuprofen ''" by (simp add: entry_def)
  have inc: "includesStr (toLowerCase ''Ibuprofen '') (trim (toLowerCase ''ibuprofen''))"
    by (simp add: toLowerCase_def toLowerCase_char_def isUpperCase_def char_of_def bit_Suc_0_iff trim_def isWhiteSpace_def)
  then have h3: "includesStr (toLowerCase (name ?d)) (trim (toLowerCase ''ibuprofen'')) \<or>
         includesStr (trim (toLowerCase ''ibuprofen'')) (toLowerCase (name ?d))"
    unfolding n by simp
  from direct_match_alert [OF h1 h2 h3] h1 h2 inc show ?thesis unfolding n by simp
qed

text \<open>
  Claim C9 names Amoxicillin with the allergy term amoxicillin as a pair for which both
  rules fire. Only the direct rule fires there: no class key (penicillin, sulfa, aspirin,
  iodine, latex) occurs in the term amoxicillin, and one alert is returned.
\<close>

theorem amoxicillin_single_finding:
  "checkAllergies [entry ''1'' ''Amoxicillin''] [''amoxicillin''] =
     [\<lparr>drug = ''Amoxicillin'', allergen = ''amoxicillin'', alert_severity = ''severe'',
       symptoms = ''Allergic reaction possible'',
       alert_recommendation = ''AVOID Amoxicillin - Patient is allergic to amoxicillin''\<rparr>]"
  by (simp add: allergy_eval_defs)

text \<open>
  Claim C9, with a pair for which both rules do fire: the medication Penicillin with the
  allergy term penicillin gives the severe AVOID alert and the CONTRAINDICATED alert of the
  penicillin class, both kept.
\<close>

theorem penicillin_both_rules:
  "checkAllergies [entry ''1'' ''Penicillin''] [''penicillin''] =
     [\<lparr>drug = ''Penicillin'', allergen = ''penicillin'', alert_severity = ''severe'',
       symptoms = ''Allergic reaction possible'',
       alert_recommendation = ''AVOID Penicillin - Patient is allergic to penicillin''\<rparr>,
      \<lparr>drug = ''Penicillin'', allergen = ''penicillin'', alert_severity = ''severe'',
       symptoms = ''Rash, hives, swelling, difficulty breathing'',
       alert_recommendation =
         ''CONTRAINDICATED - Penicillin contains penicillin which patient is allergic to''\<rparr>]"
  by (simp add: allergy_eval_defs)

text \<open>
  Claim C10. Every alert that \<open>checkAllergies\<close> returns has the severity
  \<open>severe\<close>, \<open>moderate\<close> or \<open>mild\<close>, and never \<open>safe\<close>.
\<close>

theorem allergy_severity_never_safe:
  "\<forall>al \<in> set (checkAllergies ds allergies).
     alert_severity al \<in> {''severe'', ''moderate'', ''mild''} \<and> alert_severity al \<noteq> ''safe''"
proof
  fix al
  assume "al \<in> set (checkAllergies ds allergies)"
  then obtain d allergy where "al \<in> set (checkPair d allergy [])"
    unfolding set_checkAllergies by blast
  then consider "al = directAlert d allergy" | "al \<in> set (classAlerts d allergy)"
    unfolding checkPair_eq by (auto split: if_splits)
  then have "alert_severity al \<in> {''severe'', ''moderate'', ''mild''}"
  proof cases
    case 1
    then show ?thesis by (simp add: directAlert_def)
  next
    case 2
    then show ?thesis by (rule classAlerts_severity)
  qed
  then show "alert_severity al \<in> {''severe'', ''moderate'', ''mild''} \<and> alert_severity al \<noteq> ''safe''"
    by auto
qed

text \<open>The theorem for claim C10 at Latex gloves with the allergy term latex.\<close>

theorem allergy_severity_never_safe_witness:
  "checkAllergies [entry ''1'' ''Latex gloves''] [''latex''] =
     [directAlert (entry ''1'' ''Latex gloves'') ''latex'',
      \<lparr>drug = ''Latex gloves'', allergen = ''latex'', alert_severity = ''mild'',
       symptoms = ''Skin irritation, respiratory symptoms'',
       alert_recommendation =
         ''CONTRAINDICATED - Latex gloves contains latex which patient is allergic to''\<rparr>] \<and>
   alert_severity (directAlert (entry ''1'' ''Latex gloves'') ''latex'')
     \<in> {''severe'', ''moderate'', ''mild''} \<and>
   alert_severity (directAlert (entry ''1'' ''Latex gloves'') ''latex'') \<noteq> ''safe''"
proof -
  let ?ds = "[entry ''1'' ''Latex gloves'']"
  have ev: "checkAllergies ?ds [''latex''] =
     [directAlert (entry ''1'' ''Latex gloves'') ''latex'',
      \<lparr>drug = ''Latex gloves'', allergen = ''latex'', alert_severity = ''mild'',
       symptoms = ''Skin irritation, respiratory symptoms'',
       alert_recommendation =
         ''CONTRAINDICATED - Latex gloves contains latex which patient is allergic to''\<rparr>]"
    by (simp add: allergy_eval_defs)
  then have "directAlert (entry ''1'' ''Latex gloves'') ''latex'' \<in> set (checkAllergies ?ds [''latex''])"
    by simp
  with allergy_severity_never_safe [of ?ds "[''latex'']"]
  have "alert_severity (directAlert (entry ''1'' ''Latex gloves'') ''latex'')
          \<in> {''severe'', ''moderate'', ''mild''} \<and>
        alert_severity (directAlert (entry ''1'' ''Latex gloves'') ''latex'') \<noteq> ''safe''"
    by blast
  with ev show ?thesis by simp
qed

section \<open>Dataset ingestion: parsed values and the outcomes of an upload\<close>

lemma isValid_nonEmptyFields: "isValid = nonEmptyFields"
  by (rule ext) (simp add: isValid_def nonEmptyFields_def truthy_def)

text \<open>No value of a line, and so no entry of the object built from it, holds a double quote.\<close>

lemma noQuote_lineValues: "v \<in> set (lineValues line) \<Longrightarrow> noQuote v"
  by (auto simp: lineValues_def removeQuotes_def noQuote_def)

lemma fold_lineObject_values:
  assumes "\<And>k v. m k = Some v \<Longrightarrow> v \<in> set values \<or> v = []"
    and "fold (\<lambda>(header, index) obj.
             obj(header \<mapsto> js_or (if index < length values then Some (values ! index) else None) []))
          ps m k = Some v"
  shows "v \<in> set values \<or> v = []"
  using assms
proof (induction ps arbitrary: m)
  case Nil
  then show ?case by simp
next
  case (Cons p ps)
  obtain header index where p: "p = (header, index)" by (cases p)
  let ?m' = "m(header \<mapsto> js_or (if index < length values then Some (values ! index) else None) [])"
  have "\<And>k v. ?m' k = Some v \<Longrightarrow> v \<in> set values \<or> v = []"
    using Cons.prems(1) by (auto simp: js_or_def truthy_def split: if_splits)
  moreover have "fold (\<lambda>(header, index) obj.
             obj(header \<mapsto> js_or (if index < length values then Some (values ! index) else None) []))
          ps ?m' k = Some v"
    using Cons.prems(2) unfolding p by (simp only: fold_simps case_prod_conv)
  ultimately show ?case by (rule Cons.IH)
qed

lemma lineObject_values:
  "lineObject headers values k = Some v \<Longrightarrow> v \<in> set values \<or> v = []"
  unfolding lineObject_def by (rule fold_lineObject_values [where m = Map.empty]) simp_all

lemma lineObject_noQuote:
  "lineObject headers (lineValues line) k = Some v \<Longrightarrow> noQuote v"
  using lineObject_values [of headers "lineValues line" k v] noQuote_lineValues [of v line]
  by (auto simp: noQuote_def)

lemma noQuote_js_or:
  "(\<And>v. a = Some v \<Longrightarrow> noQuote v) \<Longrightarrow> noQuote b \<Longrightarrow> noQuote (js_or a b)"
  by (auto simp: js_or_def split: option.splits)

lemma toLowerCase_char_quote:
  assumes "toLowerCase_char c = CHR 0x22"
  shows "c = CHR 0x22"
proof (cases "isUpperCase c")
  case False
  then show ?thesis using assms by (simp add: toLowerCase_char_def)
next
  case True
  then have "char_of ((of_char c :: nat) + 32) = CHR 0x22"
    using assms by (simp add: toLowerCase_char_def)
  then have "(of_char (char_of ((of_char c :: nat) + 32)) :: nat) = of_char CHR 0x22"
    by simp
  then have "((of_char c :: nat) + 32) mod 256 = 34" by simp
  moreover have "65 \<le> (of_char c :: nat)" "(of_char c :: nat) \<le> 222"
    using True by (auto simp: isUpperCase_def Let_def)
  ultimately show ?thesis by simp
qed

lemma noQuote_toLowerCase:
  assumes "noQuote s"
  shows "noQuote (toLowerCase s)"
proof -
  have "CHR 0x22 \<notin> toLowerCase_char ` set s"
  proof
    assume "CHR 0x22 \<in> toLowerCase_char ` set s"
    then obtain c where c: "c \<in> set s" "CHR 0x22 = toLowerCase_char c" by blast
    from c(2) [symmetric] have "c = CHR 0x22" by (rule toLowerCase_char_quote)
    with c(1) assms show False by (simp add: noQuote_def)
  qed
  then show ?thesis by (simp add: noQuote_def toLowerCase_def)
qed

lemma noQuote_Nil: "noQuote []"
  by (simp add: noQuote_def)

lemma noQuote_mild: "noQuote ''mild''"
  by (simp add: noQuote_def)

lemma noQuote_field:
  assumes "noQuote b"
  shows "noQuote (js_or (lineObject headers (lineValues line) k) b)"
proof (rule noQuote_js_or)
  fix v
  assume "lineObject headers (lineValues line) k = Some v"
  then show "noQuote v" by (rule lineObject_noQuote)
next
  show "noQuote b" by fact
qed

lemma parseLine_noQuote:
  "noQuote (drug1 (parseLine headers line)) \<and> noQuote (drug2 (parseLine headers line)) \<and>
   noQuote (severity (parseLine headers line)) \<and> noQuote (description (parseLine headers line)) \<and>
   noQuote (recommendation (parseLine headers line)) \<and>
   (\<exists>m. mechanism (parseLine headers line) = Some m \<and> noQuote m) \<and>
   (\<exists>e. evidence_level (parseLine headers line) = Some e \<and> noQuote e)"
  unfolding parseLine_def Let_def
  by (simp add: noQuote_field noQuote_Nil noQuote_mild noQuote_toLowerCase)

lemma parseCSV_lines:
  assumes "r \<in> set (parseCSV text)"
  shows "\<exists>headers line. r = parseLine headers line"
proof (cases "split CHR 0x0A text")
  case Nil
  then show ?thesis using assms by (simp add: parseCSV_def)
next
  case (Cons header rest)
  then show ?thesis using assms by (auto simp: parseCSV_def Let_def)
qed

text \<open>The object built from a line holds, under each header, the value of its column.\<close>

lemma fold_update_lastIndex:
  "fold (\<lambda>(h, i) m. m(h \<mapsto> g i)) (zip hs [0 ..< length hs]) m0 h' =
     (case lastIndex hs h' of None \<Rightarrow> m0 h' | Some k \<Rightarrow> Some (g k))"
proof (induction hs rule: rev_induct)
  case Nil
  show ?case by (simp add: lastIndex_def)
next
  case (snoc x hs)
  have zip: "zip (hs @ [x]) [0 ..< length (hs @ [x])] = zip hs [0 ..< length hs] @ [(x, length hs)]"
    by simp
  have same: "List.find (\<lambda>k. (hs @ [x]) ! k = h') (rev [0 ..< length hs])
      = List.find (\<lambda>k. hs ! k = h') (rev [0 ..< length hs])"
    by (rule find_cong) (auto simp: nth_append)
  have last: "lastIndex (hs @ [x]) h' = (if x = h' then Some (length hs) else lastIndex hs h')"
    unfolding lastIndex_def using same by simp
  have step: "fold (\<lambda>(h, i) m. m(h \<mapsto> g i)) (zip (hs @ [x]) [0 ..< length (hs @ [x])]) m0
      = (fold (\<lambda>(h, i) m. m(h \<mapsto> g i)) (zip hs [0 ..< length hs]) m0)(x \<mapsto> g (length hs))"
    unfolding zip by simp
  show ?case
    unfolding step last by (simp add: snoc.IH)
qed

lemma value_at_index:
  "js_or (if k < length (lineValues line) then Some (lineValues line ! k) else None) [] =
     (if k < length (split CHR '','' line)
      then removeQuotes (trim (split CHR '','' line ! k)) else [])"
  by (simp add: lineValues_def js_or_def truthy_def)

lemma lineObject_columnValue:
  "lineObject hs (lineValues line) h = columnValue hs line h"
  unfolding lineObject_def columnValue_def
  by (simp add: fold_update_lastIndex value_at_index)

lemma parseLine_csvRecord: "parseLine hs line = csvRecord hs line"
  unfolding parseLine_def csvRecord_def Let_def lineObject_columnValue ..

lemma lastIndex_last:
  assumes "k < length hs" and "\<forall>k'. k < k' \<and> k' < length hs \<longrightarrow> hs ! k' \<noteq> hs ! k"
  shows "lastIndex hs (hs ! k) = Some k"
proof -
  let ?ks = "rev [0 ..< length hs]"
  have len: "length ?ks = length hs" by simp
  have nth: "?ks ! j = length hs - 1 - j" if "j < length hs" for j
    using that by (simp add: rev_nth)
  let ?j = "length hs - 1 - k"
  have j: "?j < length ?ks" using assms(1) by simp
  have at: "?ks ! ?j = k" using assms(1) nth [of ?j] by simp
  have before: "hs ! (?ks ! j') \<noteq> hs ! k" if "j' < ?j" for j'
  proof -
    have "j' < length hs" using that by simp
    then have "?ks ! j' = length hs - 1 - j'" by (rule nth)
    moreover have "k < length hs - 1 - j'" "length hs - 1 - j' < length hs"
      using that assms(1) by simp_all
    ultimately show ?thesis using assms(2) by simp
  qed
  show ?thesis
    unfolding lastIndex_def find_Some_iff
    using j at before by (intro exI [of _ ?j]) simp
qed

lemma columnValue_at:
  assumes "k < length hs" and "\<forall>k'. k < k' \<and> k' < length hs \<longrightarrow> hs ! k' \<noteq> hs ! k"
  shows "columnValue hs line (hs ! k) =
           Some (if k < length (split CHR '','' line)
                 then removeQuotes (trim (split CHR '','' line ! k)) else [])"
  unfolding columnValue_def lastIndex_last [OF assms] by simp


lemma parseCSV_rows:
  assumes "split CHR 0x0A text = header # rest"
  shows "parseCSV text =
           map (csvRecord (map (\<lambda>h. toLowerCase (trim h)) (split CHR '','' header)))
               (filter (\<lambda>line. trim line \<noteq> []) rest)"
  using assms by (simp add: parseCSV_def Let_def truthy_def parseLine_csvRecord [abs_def])

lemma csvRecord_noQuote:
  "noQuote (drug1 (csvRecord hs line)) \<and> noQuote (drug2 (csvRecord hs line)) \<and>
   noQuote (severity (csvRecord hs line)) \<and> noQuote (description (csvRecord hs line)) \<and>
   noQuote (recommendation (csvRecord hs line)) \<and>
   (\<exists>m. mechanism (csvRecord hs line) = Some m \<and> noQuote m) \<and>
   (\<exists>e. evidence_level (csvRecord hs line) = Some e \<and> noQuote e)"
  using parseLine_noQuote [of hs line] unfolding parseLine_csvRecord .

text \<open>The two outcomes of the handler once the file is parsed, and what an added dataset holds.\<close>

lemma handleFileUpload_parsed:
  assumes "parseFile jp file = Inr parsedData"
  shows "handleFileUpload jp clock (Some file) s =
     (if filter nonEmptyFields parsedData = []
      then (s\<lparr>uploading := False\<rparr>,
            Some (uploadFailed ''No valid drug interaction data found in file''))
      else (s\<lparr>datasets := datasets s @ [newDataset clock file (filter nonEmptyFields parsedData)],
              uploading := False\<rparr>,
            Some \<lparr>title = ''Dataset uploaded successfully'',
                  toast_description =
                    natToString (length (filter nonEmptyFields parsedData))
                      @ '' drug interactions loaded from '' @ file_name file,
                  variant = None\<rparr>))"
  using assms by (simp add: handleFileUpload_def Let_def isValid_nonEmptyFields)



lemmas csv_eval_defs =
  parseCSV_def parseLine_def lineObject_def lineValues_def removeQuotes_def js_or_def truthy_def
  toLowerCase_def toLowerCase_char_def isUpperCase_def char_of_def bit_Suc_0_iff trim_def isWhiteSpace_def Let_def

lemmas upload_eval_defs =
  handleFileUpload_def parseFile_def endsWith_def newDataset_def isValid_def csvFile_def
  csvHeader_def emptyManager_def sampleClock_def

section \<open>The JSON functions: parsing what was serialised\<close>

lemma hexValue_hexDigit:
  assumes "k < 16"
  shows "hexValue (hexDigit k) = Some k"
proof -
  have "list_all (\<lambda>k. hexValue (hexDigit k) = Some k) [0 ..< 16]"
    by code_simp
  then show ?thesis using assms by (simp add: list_all_iff)
qed

lemma hexValue_zero: "hexValue CHR ''0'' = Some 0"
  by (simp add: hexValue_def)

lemma unescape_control:
  assumes "(of_char c :: nat) < 32"
  shows "unescape (CHR ''u'' # CHR ''0'' # CHR ''0'' # hexDigit (of_char c div 16)
                     # hexDigit (of_char c mod 16) # s) = Some (c, s)"
proof -
  let ?n = "of_char c :: nat"
  have hi: "hexValue (hexDigit (?n div 16)) = Some (?n div 16)"
    using assms by (intro hexValue_hexDigit) simp
  have lo: "hexValue (hexDigit (?n mod 16)) = Some (?n mod 16)"
    by (intro hexValue_hexDigit) simp
  have val: "((0 * 16 + 0) * 16 + ?n div 16) * 16 + ?n mod 16 = ?n" by simp
  have small: "?n < 256" using assms by simp
  show ?thesis
    unfolding unescape_def
    by (simp add: hexValue_zero hi lo small)
qed

lemma parseStringBody_quoteChar:
  "parseStringBody (quoteChar c @ s) =
     (case parseStringBody s of None \<Rightarrow> None | Some (t, r) \<Rightarrow> Some (c # t, r))"
proof -
  consider (special) "c \<in> set [CHR 0x22, CHR 0x5C, CHR 0x08, CHR 0x09, CHR 0x0A, CHR 0x0C, CHR 0x0D]"
    | (control) "c \<notin> set [CHR 0x22, CHR 0x5C, CHR 0x08, CHR 0x09, CHR 0x0A, CHR 0x0C, CHR 0x0D]"
        "(of_char c :: nat) < 32"
    | (plain) "c \<notin> set [CHR 0x22, CHR 0x5C, CHR 0x08, CHR 0x09, CHR 0x0A, CHR 0x0C, CHR 0x0D]"
        "\<not> (of_char c :: nat) < 32"
    by blast
  then show ?thesis
  proof cases
    case special
    then show ?thesis
      by (auto simp: quoteChar_def unescape_def simpleEscape_def)
  next
    case control
    then show ?thesis
      by (simp add: quoteChar_def unescape_control)
  next
    case plain
    then show ?thesis
      by (simp add: quoteChar_def)
  qed
qed

lemma parseStringBody_quoted:
  "parseStringBody (concat (map quoteChar t) @ CHR 0x22 # s) = Some (t, s)"
  by (induction t) (simp_all add: parseStringBody_quoteChar)

lemma skipWs_ws: "isJsonWs c \<Longrightarrow> skipWs (c # s) = skipWs s"
  by (simp add: skipWs_def)

lemma skipWs_other: "\<not> isJsonWs c \<Longrightarrow> skipWs (c # s) = c # s"
  by (simp add: skipWs_def)

lemma skipWs_Nil: "skipWs [] = []"
  by (simp add: skipWs_def)

lemmas skipWs_simps = skipWs_ws skipWs_other skipWs_Nil isJsonWs_def

lemma parseValue_string:
  "parseValue (Suc n) (CHR '' '' # quoteJSONString v @ s) = Some (JStr v, s)"
  by (simp add: quoteJSONString_def skipWs_simps parseStringBody_quoted)

lemma length_serializeProperties: "0 < length (serializeProperties ps)"
  by (induction ps rule: serializeProperties.induct) simp_all










text \<open>
  Every parser consumes what it reads, so the bound on the nested calls never decides a
  parse: any bound above twice the length of the text gives the result of \<open>parseJSON\<close>.
\<close>

lemma skipWs_length: "length (skipWs s) \<le> length s"
  by (simp add: skipWs_def length_dropWhile_le)

lemma skipWs_Cons_shorter: "skipWs s = c # r \<Longrightarrow> length r < length s"
  using skipWs_length [of s] by simp

lemma unescape_shorter: "unescape s = Some (ch, r) \<Longrightarrow> length r < length s"
  by (auto simp: unescape_def split: list.splits if_splits option.splits)

lemma parseStringBody_shorter: "parseStringBody s = Some (t, r) \<Longrightarrow> length r < length s"
proof (induction s arbitrary: t r rule: parseStringBody.induct)
  case 1
  then show ?case by simp
next
  case (2 c cs)
  show ?case
  proof (cases "c = CHR 0x22")
    case True
    then show ?thesis using "2.prems" by auto
  next
    case quote: False
    show ?thesis
    proof (cases "c = CHR 0x5C")
      case True
      with quote "2.prems" obtain ch r1 t1 where u: "unescape cs = Some (ch, r1)"
        and p: "parseStringBody r1 = Some (t1, r)"
        by (auto split: option.splits)
      from "2.IH"(1) [OF quote True u [symmetric, THEN sym] refl p] have "length r < length r1"
        by simp
      with unescape_shorter [OF u] show ?thesis by simp
    next
      case False
      with quote "2.prems" obtain t1 where low: "\<not> (of_char c :: nat) < 32"
        and p: "parseStringBody cs = Some (t1, r)"
        by (auto split: option.splits if_splits)
      from "2.IH"(2) [OF quote False low p] show ?thesis by simp
    qed
  qed
qed

lemma integerPart_prefix:
  assumes "integerPart s = Some a"
  shows "a \<noteq> [] \<and> length a \<le> length s"
proof -
  let ?sign = "if startsWith s ''-'' then ''-'' else []"
  let ?ds = "takeWhile isDigit (drop (length ?sign) s)"
  from assms have a: "a = ?sign @ ?ds" and ds: "?ds \<noteq> []"
    unfolding integerPart_def Let_def by (simp_all split: if_splits)
  have "length ?ds \<le> length (drop (length ?sign) s)"
    by (rule length_takeWhile_le)
  moreover have "length ?sign \<le> length s"
    by (cases s) simp_all
  ultimately have "length a \<le> length s" unfolding a by simp
  with a ds show ?thesis by simp
qed

lemma parseNumber_shorter:
  assumes "parseNumber s = Some (t, r)"
  shows "length r < length s"
proof -
  from assms obtain a where a: "integerPart s = Some a"
    and r: "length r \<le> length s - length a"
    unfolding parseNumber_def by (auto split: option.splits)
  from integerPart_prefix [OF a] r show ?thesis by (cases a) auto
qed


lemma drop_skipWs_shorter: "skipWs s = c # r \<Longrightarrow> length (drop k (skipWs r)) < length s"
  using skipWs_length [of s] skipWs_length [of r] by simp

lemma parse_shorter_all:
  "(\<forall>s v r. parseValue n s = Some (v, r) \<longrightarrow> length r < length s) \<and>
   (\<forall>s vs r. parseElements n s = Some (vs, r) \<longrightarrow> length r < length s) \<and>
   (\<forall>s ms r. parseMembers n s = Some (ms, r) \<longrightarrow> length r < length s)"
proof (induction n)
  case 0
  show ?case by simp
next
  case (Suc n)
  have ihV: "parseValue n s = Some (v, r) \<Longrightarrow> length r < length s" for s v r
    using Suc.IH by blast
  have ihE: "parseElements n s = Some (vs, r) \<Longrightarrow> length r < length s" for s vs r
    using Suc.IH by blast
  have ihM: "parseMembers n s = Some (ms, r) \<Longrightarrow> length r < length s" for s ms r
    using Suc.IH by blast
  have V: "length r < length s" if p: "parseValue (Suc n) s = Some (v, r)" for s v r
  proof (cases "skipWs s")
    case Nil
    with p show ?thesis by simp
  next
    case (Cons c r0)
    then have r0: "length r0 < length s" by (rule skipWs_Cons_shorter)
    have ws: "length (skipWs r0) \<le> length r0" by (rule skipWs_length)
    consider (obj) "c = CHR ''{''" | (arr) "c \<noteq> CHR ''{''" "c = CHR ''[''"
      | (str) "c \<noteq> CHR ''{''" "c \<noteq> CHR ''[''" "c = CHR 0x22"
      | (other) "c \<noteq> CHR ''{''" "c \<noteq> CHR ''[''" "c \<noteq> CHR 0x22"
      by blast
    then show ?thesis
    proof cases
      case obj
      show ?thesis
      proof (cases "startsWith (skipWs r0) ''}''")
        case True
        with p Cons obj have "r = drop 1 (skipWs r0)" by simp
        with r0 ws show ?thesis by simp
      next
        case False
        with p Cons obj obtain ms where "parseMembers n r0 = Some (ms, r)"
          by (auto split: option.splits)
        from ihM [OF this] r0 show ?thesis by simp
      qed
    next
      case arr
      show ?thesis
      proof (cases "startsWith (skipWs r0) '']''")
        case True
        with p Cons arr have "r = drop 1 (skipWs r0)" by simp
        with r0 ws show ?thesis by simp
      next
        case False
        with p Cons arr obtain vs where "parseElements n r0 = Some (vs, r)"
          by (auto split: option.splits)
        from ihE [OF this] r0 show ?thesis by simp
      qed
    next
      case str
      with p Cons obtain t where "parseStringBody r0 = Some (t, r)"
        by (auto split: option.splits)
      from parseStringBody_shorter [OF this] r0 show ?thesis by simp
    next
      case other
      with p Cons have "r = drop 4 (c # r0) \<or> r = drop 5 (c # r0) \<or>
          (\<exists>t. parseNumber (c # r0) = Some (t, r))"
        by (auto split: option.splits if_splits)
      then show ?thesis
        using r0 by (auto dest: parseNumber_shorter)
    qed
  qed
  have E: "length r < length s" if p: "parseElements (Suc n) s = Some (vs, r)" for s vs r
  proof -
    from p obtain v r1 c r2 where v: "parseValue n s = Some (v, r1)" and w: "skipWs r1 = c # r2"
      and rest: "(c = CHR '','' \<and> (\<exists>vs'. parseElements n r2 = Some (vs', r))) \<or> r = r2"
      by (auto split: option.splits list.splits if_splits)
    from ihV [OF v] skipWs_Cons_shorter [OF w] have "length r2 < length s" by simp
    with rest show ?thesis by (auto dest: ihE)
  qed
  have M: "length r < length s" if p: "parseMembers (Suc n) s = Some (ms, r)" for s ms r
  proof -
    from p obtain q r0 k r1 c r2 v r3 c' r4 where w0: "skipWs s = q # r0"
      and k: "parseStringBody r0 = Some (k, r1)" and w1: "skipWs r1 = c # r2"
      and v: "parseValue n r2 = Some (v, r3)" and w3: "skipWs r3 = c' # r4"
      and rest: "(c' = CHR '','' \<and> (\<exists>ms'. parseMembers n r4 = Some (ms', r))) \<or> r = r4"
      by (auto split: option.splits list.splits if_splits)
    from skipWs_Cons_shorter [OF w0] parseStringBody_shorter [OF k] skipWs_Cons_shorter [OF w1]
      ihV [OF v] skipWs_Cons_shorter [OF w3]
    have "length r4 < length s" by simp
    with rest show ?thesis by (auto dest: ihM)
  qed
  from V E M show ?case by blast
qed


lemma parseValue_shorter: "parseValue n s = Some (v, r) \<Longrightarrow> length r < length s"
  using parse_shorter_all [of n] by blast

lemma parse_bound_all:
  "(\<forall>s m. 2 * length s \<le> n \<and> 2 * length s \<le> m \<longrightarrow> parseValue n s = parseValue m s) \<and>
   (\<forall>s m. 2 * length s + 1 \<le> n \<and> 2 * length s + 1 \<le> m \<longrightarrow>
      parseElements n s = parseElements m s) \<and>
   (\<forall>s m. 2 * length s + 1 \<le> n \<and> 2 * length s + 1 \<le> m \<longrightarrow>
      parseMembers n s = parseMembers m s)"
proof (induction n)
  case 0
  have "parseValue 0 [] = parseValue m []" for m
    by (cases m) (simp_all add: skipWs_def)
  then show ?case by simp
next
  case (Suc n)
  have ihV: "2 * length s \<le> n \<Longrightarrow> 2 * length s \<le> m \<Longrightarrow> parseValue n s = parseValue m s"
    for s m using Suc.IH by blast
  have ihE: "2 * length s + 1 \<le> n \<Longrightarrow> 2 * length s + 1 \<le> m \<Longrightarrow>
      parseElements n s = parseElements m s" for s m using Suc.IH by blast
  have ihM: "2 * length s + 1 \<le> n \<Longrightarrow> 2 * length s + 1 \<le> m \<Longrightarrow>
      parseMembers n s = parseMembers m s" for s m using Suc.IH by blast
  have V: "parseValue (Suc n) s = parseValue m s"
    if b: "2 * length s \<le> Suc n" "2 * length s \<le> m" for s m
  proof (cases m)
    case 0
    with b have "s = []" by simp
    then show ?thesis using 0 by (simp add: skipWs_def)
  next
    case (Suc m')
    have eqM: "parseMembers n r0 = parseMembers m' r0" if "skipWs s = c # r0" for c r0
      using skipWs_Cons_shorter [OF that] b Suc by (intro ihM) simp_all
    have eqE: "parseElements n r0 = parseElements m' r0" if "skipWs s = c # r0" for c r0
      using skipWs_Cons_shorter [OF that] b Suc by (intro ihE) simp_all
    show ?thesis
      unfolding Suc by (simp add: eqM eqE split: list.splits)
  qed
  have E: "parseElements (Suc n) s = parseElements m s"
    if b: "2 * length s + 1 \<le> Suc n" "2 * length s + 1 \<le> m" for s m
  proof -
    from b obtain m' where m: "m = Suc m'" by (cases m) auto
    have eqV: "parseValue n s = parseValue m' s"
      using b m by (intro ihV) simp_all
    have eqE: "parseElements n r2 = parseElements m' r2"
      if "parseValue m' s = Some (v, r1)" "skipWs r1 = c # r2" for v r1 c r2
      using parseValue_shorter [OF that(1)] skipWs_Cons_shorter [OF that(2)] b m
      by (intro ihE) simp_all
    show ?thesis
      unfolding m by (simp add: eqV eqE split: option.splits list.splits)
  qed
  have M: "parseMembers (Suc n) s = parseMembers m s"
    if b: "2 * length s + 1 \<le> Suc n" "2 * length s + 1 \<le> m" for s m
  proof -
    from b obtain m' where m: "m = Suc m'" by (cases m) auto
    have eqV: "parseValue n r2 = parseValue m' r2"
      if "skipWs s = q # r0" "parseStringBody r0 = Some (k, r1)" "skipWs r1 = c # r2"
      for q r0 k r1 c r2
      using skipWs_Cons_shorter [OF that(1)] parseStringBody_shorter [OF that(2)]
        skipWs_Cons_shorter [OF that(3)] b m
      by (intro ihV) simp_all
    have eqM: "parseMembers n r4 = parseMembers m' r4"
      if "skipWs s = q # r0" "parseStringBody r0 = Some (k, r1)" "skipWs r1 = c # r2"
        "parseValue m' r2 = Some (v, r3)" "skipWs r3 = c' # r4"
      for q r0 k r1 c r2 v r3 c' r4
      using skipWs_Cons_shorter [OF that(1)] parseStringBody_shorter [OF that(2)]
        skipWs_Cons_shorter [OF that(3)] parseValue_shorter [OF that(4)]
        skipWs_Cons_shorter [OF that(5)] b m
      by (intro ihM) simp_all
    show ?thesis
      unfolding m by (simp add: eqV eqM split: option.splits list.splits)
  qed
  from V E M show ?case by blast
qed

lemma parseValue_bound:
  assumes "2 * length s < n"
  shows "parseValue n s = parseValue (Suc (2 * length s)) s"
proof -
  have "2 * length s \<le> n \<and> 2 * length s \<le> Suc (2 * length s)"
    using assms by simp
  then show ?thesis
    by (rule parse_bound_all [THEN conjunct1, rule_format])
qed

section \<open>Claims about dataset ingestion\<close>

text \<open>
  Claim C3 as stated, with the fields compared after trimming, fails: a CSV value of one
  space between double quotes becomes the field of one space, which is empty after trimming,
  and the record is retained and a dataset is added.
\<close>

theorem blank_field_retained:
  "trim '' '' = [] \<and>
   map data (datasets (fst (handleFileUpload jsonParse sampleClock
      (Some (csvFile ([CHR 0x22] @ '' '' @ [CHR 0x22] @ '',b,mild,d''))) emptyManager))) =
   [[\<lparr>drug1 = '' '', drug2 = ''b'', severity = ''mild'', description = ''d'',
      recommendation = [], mechanism = Some [], evidence_level = Some []\<rparr>]]"
  by (simp add: csv_eval_defs upload_eval_defs)

text \<open>
  Claim C3, as the code has it. The records retained are those whose \<open>drug1\<close>, \<open>drug2\<close>,
  \<open>severity\<close> and \<open>description\<close> are non-empty strings as parsed (the validation does not
  trim). When none is retained the upload fails with the notification and the dataset list
  stays as it was; otherwise one dataset is added, holding exactly the retained records.
\<close>

theorem upload_retains_nonempty_fields:
  assumes "parseFile jp file = Inr parsedData"
  shows "(filter nonEmptyFields parsedData = [] \<longrightarrow>
            handleFileUpload jp clock (Some file) s =
              (s\<lparr>uploading := False\<rparr>,
               Some (uploadFailed ''No valid drug interaction data found in file'')) \<and>
            datasets (fst (handleFileUpload jp clock (Some file) s)) = datasets s) \<and>
         (filter nonEmptyFields parsedData \<noteq> [] \<longrightarrow>
            (\<exists>d. datasets (fst (handleFileUpload jp clock (Some file) s)) = datasets s @ [d] \<and>
                 data d = filter nonEmptyFields parsedData \<and>
                 rowCount d = length (filter nonEmptyFields parsedData)))"
  unfolding handleFileUpload_parsed [OF assms]
  by (simp add: newDataset_def)

text \<open>
  The theorem for claim C3 at a CSV file of two rows, the second without \<open>drug2\<close>: the
  dataset added holds the first record only.
\<close>

theorem upload_retains_nonempty_fields_witness:
  "parseFile jsonParse
     (csvFile (''Aspirin,Warfarin,severe,bleeding risk'' @ [CHR 0x0A] @ ''Ibuprofen,,mild,x'')) =
     Inr [aspirinWarfarin,
          \<lparr>drug1 = ''Ibuprofen'', drug2 = [], severity = ''mild'', description = ''x'',
           recommendation = [], mechanism = Some [], evidence_level = Some []\<rparr>] \<and>
   map data (datasets (fst (handleFileUpload jsonParse sampleClock
      (Some (csvFile (''Aspirin,Warfarin,severe,bleeding risk'' @ [CHR 0x0A] @ ''Ibuprofen,,mild,x'')))
      emptyManager))) = [[aspirinWarfarin]]"
proof -
  let ?file = "csvFile (''Aspirin,Warfarin,severe,bleeding risk'' @ [CHR 0x0A] @ ''Ibuprofen,,mild,x'')"
  let ?r2 = "\<lparr>drug1 = ''Ibuprofen'', drug2 = [], severity = ''mild'', description = ''x'',
           recommendation = [], mechanism = Some [], evidence_level = Some []\<rparr>"
  have parsed: "parseFile jsonParse ?file = Inr [aspirinWarfarin, ?r2]"
    by (simp add: csv_eval_defs upload_eval_defs aspirinWarfarin_def)
  have valid: "filter nonEmptyFields [aspirinWarfarin, ?r2] = [aspirinWarfarin]"
    by (simp add: nonEmptyFields_def aspirinWarfarin_def)
  from upload_retains_nonempty_fields [OF parsed, of sampleClock emptyManager]
  obtain d where "datasets (fst (handleFileUpload jsonParse sampleClock (Some ?file) emptyManager))
        = datasets emptyManager @ [d]"
      "data d = [aspirinWarfarin]"
    unfolding valid by auto
  then have "map data (datasets (fst (handleFileUpload jsonParse sampleClock (Some ?file) emptyManager)))
      = [[aspirinWarfarin]]"
    by (simp add: emptyManager_def)
  with parsed show ?thesis by simp
qed

text \<open>
  Claim C6 as stated fails: a double quote inside a value is removed, not preserved.
\<close>

theorem interior_quote_removed:
  "lineValues (''Asp'' @ [CHR 0x22] @ ''irin,Warfarin'') = [''Aspirin'', ''Warfarin''] \<and>
   map drug1 (parseCSV (csvHeader @ [CHR 0x0A] @
                 ''Asp'' @ [CHR 0x22] @ ''irin,Warfarin,severe,bleeding risk'')) = [''Aspirin''] \<and>
   ''Aspirin'' \<noteq> ''Asp'' @ [CHR 0x22] @ ''irin''"
  by (simp add: csv_eval_defs csvHeader_def)

text \<open>
  Claim C6, as the code has it. Every value of a data row is trimmed and then freed of all
  its double quotes, those inside the value too, and the fields of the ingested record are
  these values: the records of a file are the records of its non-blank data lines; in the
  record of a line, the field of a column holds the piece of the line at the column's
  index, trimmed and without its quotes, when that is not empty (\<open>severity\<close> lowercased;
  \<open>mechanism\<close> also when it is empty); and no field contains a double quote.
\<close>

theorem csv_fields_trimmed_unquoted:
  assumes "split CHR 0x0A text = header # rest"
    and "hs = map (\<lambda>h. toLowerCase (trim h)) (split CHR '','' header)"
    and "rows = filter (\<lambda>line. trim line \<noteq> []) rest"
    and "i < length rows" and "r = parseCSV text ! i"
    and "k < length hs" and "\<forall>k'. k < k' \<and> k' < length hs \<longrightarrow> hs ! k' \<noteq> hs ! k"
    and "v = (if k < length (split CHR '','' (rows ! i))
              then removeQuotes (trim (split CHR '','' (rows ! i) ! k)) else [])"
  shows "parseCSV text = map (csvRecord hs) rows \<and>
         (hs ! k = ''drug1'' \<and> v \<noteq> [] \<longrightarrow> drug1 r = v) \<and>
         (hs ! k = ''drug2'' \<and> v \<noteq> [] \<longrightarrow> drug2 r = v) \<and>
         (hs ! k = ''severity'' \<and> v \<noteq> [] \<longrightarrow> severity r = toLowerCase v) \<and>
         (hs ! k = ''description'' \<and> v \<noteq> [] \<longrightarrow> description r = v) \<and>
         (hs ! k = ''recommendation'' \<and> v \<noteq> [] \<longrightarrow> recommendation r = v) \<and>
         (hs ! k = ''mechanism'' \<longrightarrow> mechanism r = Some v) \<and>
         (hs ! k = ''evidence_level'' \<and> v \<noteq> [] \<longrightarrow> evidence_level r = Some v) \<and>
         noQuote (drug1 r) \<and> noQuote (drug2 r) \<and> noQuote (severity r) \<and>
         noQuote (description r) \<and> noQuote (recommendation r) \<and>
         (\<exists>m. mechanism r = Some m \<and> noQuote m) \<and> (\<exists>e. evidence_level r = Some e \<and> noQuote e)"
proof -
  have all: "parseCSV text = map (csvRecord hs) rows"
    using parseCSV_rows [OF assms(1)] unfolding assms(2,3) .
  then have r: "r = csvRecord hs (rows ! i)"
    using assms(4,5) by simp
  have col: "columnValue hs (rows ! i) (hs ! k) = Some v"
    unfolding assms(8) using assms(6,7) by (rule columnValue_at)
  have fields:
    "(hs ! k = ''drug1'' \<and> v \<noteq> [] \<longrightarrow> drug1 r = v) \<and>
     (hs ! k = ''drug2'' \<and> v \<noteq> [] \<longrightarrow> drug2 r = v) \<and>
     (hs ! k = ''severity'' \<and> v \<noteq> [] \<longrightarrow> severity r = toLowerCase v) \<and>
     (hs ! k = ''description'' \<and> v \<noteq> [] \<longrightarrow> description r = v) \<and>
     (hs ! k = ''recommendation'' \<and> v \<noteq> [] \<longrightarrow> recommendation r = v) \<and>
     (hs ! k = ''mechanism'' \<longrightarrow> mechanism r = Some v) \<and>
     (hs ! k = ''evidence_level'' \<and> v \<noteq> [] \<longrightarrow> evidence_level r = Some v)"
    using col unfolding r csvRecord_def by (auto simp: js_or_def truthy_def)
  show ?thesis
    using all fields csvRecord_noQuote [of hs "rows ! i"] unfolding r by blast
qed

text \<open>
  The theorem for claim C6 at a row with a quote inside its first value and a second
  value between spaces and quotes, for the column \<open>drug2\<close>.
\<close>

theorem csv_fields_trimmed_unquoted_witness:
  "split CHR 0x0A (csvHeader @ [CHR 0x0A] @ ''Asp'' @ [CHR 0x22] @ ''irin, '' @ [CHR 0x22]
       @ ''Warfarin'' @ [CHR 0x22] @ '' ,Severe,bleeding risk'') =
     [csvHeader, ''Asp'' @ [CHR 0x22] @ ''irin, '' @ [CHR 0x22] @ ''Warfarin'' @ [CHR 0x22]
       @ '' ,Severe,bleeding risk''] \<and>
   map (\<lambda>h. toLowerCase (trim h)) (split CHR '','' csvHeader) =
     [''drug1'', ''drug2'', ''severity'', ''description''] \<and>
   split CHR '','' (''Asp'' @ [CHR 0x22] @ ''irin, '' @ [CHR 0x22] @ ''Warfarin'' @ [CHR 0x22]
       @ '' ,Severe,bleeding risk'') =
     [''Asp'' @ [CHR 0x22] @ ''irin'', '' '' @ [CHR 0x22] @ ''Warfarin'' @ [CHR 0x22] @ '' '',
      ''Severe'', ''bleeding risk''] \<and>
   drug2 (parseCSV (csvHeader @ [CHR 0x0A] @ ''Asp'' @ [CHR 0x22] @ ''irin, '' @ [CHR 0x22]
       @ ''Warfarin'' @ [CHR 0x22] @ '' ,Severe,bleeding risk'') ! 0) = ''Warfarin'' \<and>
   noQuote (drug1 (parseCSV (csvHeader @ [CHR 0x0A] @ ''Asp'' @ [CHR 0x22] @ ''irin, '' @ [CHR 0x22]
       @ ''Warfarin'' @ [CHR 0x22] @ '' ,Severe,bleeding risk'') ! 0))"
proof -
  let ?row = "''Asp'' @ [CHR 0x22] @ ''irin, '' @ [CHR 0x22] @ ''Warfarin'' @ [CHR 0x22]
       @ '' ,Severe,bleeding risk''"
  let ?text = "csvHeader @ [CHR 0x0A] @ ?row"
  let ?hs = "[''drug1'', ''drug2'', ''severity'', ''description'']"
  have h1: "split CHR 0x0A ?text = csvHeader # [?row]"
    by (simp add: csvHeader_def)
  have h2: "?hs = map (\<lambda>h. toLowerCase (trim h)) (split CHR '','' csvHeader)"
    by (simp add: csvHeader_def toLowerCase_def toLowerCase_char_def isUpperCase_def trim_def
          isWhiteSpace_def)
  have h3: "[?row] = filter (\<lambda>line. trim line \<noteq> []) [?row]"
    by (simp add: trim_def isWhiteSpace_def)
  have h4: "(0::nat) < length [?row]" by simp
  have h6: "(1::nat) < length ?hs" by simp
  have h7: "\<forall>k'. 1 < k' \<and> k' < length ?hs \<longrightarrow> ?hs ! k' \<noteq> ?hs ! 1"
    by (auto simp: less_Suc_eq numeral_eq_Suc)
  have pieces: "split CHR '','' ?row =
     [''Asp'' @ [CHR 0x22] @ ''irin'', '' '' @ [CHR 0x22] @ ''Warfarin'' @ [CHR 0x22] @ '' '',
      ''Severe'', ''bleeding risk'']"
    by simp
  have h8: "''Warfarin'' = (if 1 < length (split CHR '','' ([?row] ! 0))
              then removeQuotes (trim (split CHR '','' ([?row] ! 0) ! 1)) else [])"
    by (simp add: trim_def isWhiteSpace_def removeQuotes_def)
  note main = csv_fields_trimmed_unquoted [OF h1 h2 h3 h4 refl h6 h7 h8]
  from main [THEN conjunct2, THEN conjunct2, THEN conjunct1]
  have d2: "drug2 (parseCSV ?text ! 0) = ''Warfarin''" by simp
  from main [THEN conjunct2, THEN conjunct2, THEN conjunct2, THEN conjunct2, THEN conjunct2,
             THEN conjunct2, THEN conjunct2, THEN conjunct2, THEN conjunct1]
  have d1: "noQuote (drug1 (parseCSV ?text ! 0))" .
  from h1 h2 pieces d2 d1 show ?thesis by simp
qed



end
